theory Spec2Isabelle
  imports Complex_Main "HOL-Library.Multiset" "HOL-Library.Log_Nat"
begin

section \<open>Multi-view feature fusion (scripts/feature\_fusion/scannet\_openseg.py)\<close>

text \<open>
  The script fuses per-pixel image features onto a point cloud. For every image of a scene
  it asks the projector which points are visible and where they land, gathers the feature
  vectors at those pixels, and keeps a running per-point sum and count; at the end the sum
  is divided by the count.

  What the script gets from its collaborators is an input of the model:
  \<^item> the file system is the set of paths for which \<^verbatim>\<open>os.path.exists\<close> answers true;
  \<^item> a view holds, for one image, the array returned by \<^verbatim>\<open>compute_mapping\<close> (per point:
    row, column, mask) and the feature field returned by
    \<^verbatim>\<open>extract_openseg_img_feature\<close>;
  \<^item> the number of points is what \<^verbatim>\<open>torch.load\<close> delivered.

  Tensor entries have the type \<open>'a\<close>, with the operations \<open>0\<close>, \<open>1\<close>, \<open>+\<close>, \<open>*\<close> and \<open>/\<close>
  only. Results about exact arithmetic are stated for ordered fields (the rationals, the
  reals); the type \<open>f32\<close> defined below rounds every result to 24 significant bits, as
  the \<^verbatim>\<open>float32\<close> tensors of the script do. The call of
  \<^verbatim>\<open>breakpoint()\<close> before the output is written has no effect on the values and is left out.
\<close>

subsection \<open>Errors\<close>

datatype py_error =
    ValueError          \<comment> \<open>numpy: could not broadcast input array\<close>
  | IndexError          \<comment> \<open>torch: index out of range\<close>
  | RuntimeError        \<comment> \<open>torch: tensor sizes do not match\<close>
  | UnboundLocalError   \<comment> \<open>\<^verbatim>\<open>img_features\<close> read before assignment\<close>

subsection \<open>Paths and scene identifiers\<close>

text \<open>\<^verbatim>\<open>s.split(sep)\<close> for a non-empty separator: \<open>cur\<close> is the piece being read, reversed.\<close>

fun is_prefix :: "string \<Rightarrow> string \<Rightarrow> bool" where
  "is_prefix [] ys = True"
| "is_prefix (x # xs) [] = False"
| "is_prefix (x # xs) (y # ys) = (x = y \<and> is_prefix xs ys)"

function split_from :: "string \<Rightarrow> string \<Rightarrow> string \<Rightarrow> string list" where
  "split_from sep cur [] = [rev cur]"
| "split_from sep cur (c # cs) =
     (if sep \<noteq> [] \<and> is_prefix sep (c # cs)
      then rev cur # split_from sep [] (drop (length sep) (c # cs))
      else split_from sep (c # cur) cs)"
  by pat_completeness auto
termination
  by (relation "measure (\<lambda>(sep, cur, s). length s)") auto

definition py_split :: "string \<Rightarrow> string \<Rightarrow> string list" where
  "py_split s sep = split_from sep [] s"

text \<open>\<^verbatim>\<open>data_path.split("/")[-1].split("_vh")[0]\<close>\<close>

definition scene_id_of :: "string \<Rightarrow> string" where
  "scene_id_of data_path = hd (py_split (last (py_split data_path ''/'')) ''_vh'')"

text \<open>\<^verbatim>\<open>os.path.join(a, b)\<close> on POSIX.\<close>

definition join :: "string \<Rightarrow> string \<Rightarrow> string" where
  "join a b =
     (if b \<noteq> [] \<and> hd b = CHR ''/'' then b
      else if a = [] \<or> last a = CHR ''/'' then a @ b
      else a @ ''/'' @ b)"

text \<open>\<^verbatim>\<open>"%d" % n\<close> for a non-negative \<open>n\<close>.\<close>

fun str_nat :: "nat \<Rightarrow> string" where
  "str_nat n =
     (if n < 10 then [''0123456789'' ! n]
      else str_nat (n div 10) @ [''0123456789'' ! (n mod 10)])"

declare str_nat.simps [simp del]

text \<open>\<^verbatim>\<open>join(out_dir, scene_id + "_%d.pt" % (n))\<close>\<close>

definition shard_path :: "string \<Rightarrow> string \<Rightarrow> nat \<Rightarrow> string" where
  "shard_path out_dir scene_id n = join out_dir (scene_id @ ''_'' @ str_nat n @ ''.pt'')"

subsection \<open>Tensors and views\<close>

text \<open>A feature field \<^verbatim>\<open>feat_2d\<close> of shape \<open>(chans, height, width)\<close>.\<close>

record 'a tensor3 =
  chans :: nat
  height :: nat
  width :: nat
  entry :: "nat \<Rightarrow> nat \<Rightarrow> nat \<Rightarrow> 'a"

text \<open>A field given by its nested rows, \<open>xs ! d ! r ! c\<close>, for writing down examples.\<close>

definition tensor3_of :: "nat \<Rightarrow> nat \<Rightarrow> 'a list list list \<Rightarrow> 'a tensor3" where
  "tensor3_of h w xs =
     \<lparr>chans = length xs, height = h, width = w, entry = (\<lambda>d r c. xs ! d ! r ! c)\<rparr>"

text \<open>
  One image of the scene: columns 1 to 3 of \<^verbatim>\<open>mapping\<close> (row, column, mask) as
  \<^verbatim>\<open>compute_mapping\<close> returned them, and the feature field of the image.
\<close>

record 'a view =
  mapping :: "(int \<times> int \<times> int) list"
  feat_2d :: "'a tensor3"

definition mask_of :: "'a view \<Rightarrow> int list" where
  "mask_of v = map (\<lambda>(r, c, m). m) (mapping v)"

text \<open>An index tensor entry \<open>i\<close> on an axis of size \<open>n\<close>: negative entries count from the end.\<close>

definition index_ok :: "int \<Rightarrow> nat \<Rightarrow> bool" where
  "index_ok i n = (- int n \<le> i \<and> i < int n)"

definition norm_index :: "int \<Rightarrow> nat \<Rightarrow> nat" where
  "norm_index i n = nat (if i < 0 then i + int n else i)"

text \<open>\<^verbatim>\<open>feat_2d[:, mapping[:, 1], mapping[:, 2]].permute(1, 0)\<close>: one row per point.\<close>

definition pixel :: "'a tensor3 \<Rightarrow> int \<times> int \<times> int \<Rightarrow> 'a list" where
  "pixel f = (\<lambda>(r, c, m).
     map (\<lambda>d. entry f d (norm_index r (height f)) (norm_index c (width f))) [0..<chans f])"

definition coords_ok :: "'a tensor3 \<Rightarrow> int \<times> int \<times> int \<Rightarrow> bool" where
  "coords_ok f = (\<lambda>(r, c, m). index_ok r (height f) \<and> index_ok c (width f))"

definition gather :: "'a tensor3 \<Rightarrow> (int \<times> int \<times> int) list \<Rightarrow> py_error + 'a list list" where
  "gather f mp = (if list_all (coords_ok f) mp then Inr (map (pixel f) mp) else Inl IndexError)"

subsection \<open>The accumulator\<close>

record 'a acc =
  counter :: "'a list"
  sum_features :: "'a list list"
  vis_id :: "int list list"
  extracted :: "nat list"  \<comment> \<open>images passed to \<^verbatim>\<open>extract_openseg_img_feature\<close>, in call order\<close>

record args =
  num_rand_file_per_scene :: nat  \<comment> \<open>a count; main sets it to 5 or 1\<close>
  feat_dim :: nat
  keep_features_in_memory :: bool
  has_openseg_model :: bool  \<comment> \<open>\<^verbatim>\<open>openseg_model is not None\<close>\<close>

text \<open>Lines 74 to 83: the features kept in memory, and the zero tensors.\<close>

definition init_acc :: "args \<Rightarrow> nat \<Rightarrow> nat \<Rightarrow> ('a::zero) acc" where
  "init_acc a n_points num_img =
     \<lparr>counter = replicate n_points 0,
      sum_features = replicate n_points (replicate (feat_dim a) 0),
      vis_id = replicate n_points (replicate num_img 0),
      extracted = (if keep_features_in_memory a \<and> has_openseg_model a then [0..<num_img] else [])\<rparr>"

text \<open>
  \<^verbatim>\<open>row += f\<close> for one selected row: \<open>f\<close> has the same length as the row or is broadcast
  from length 1 (the caller has checked that one of the two holds).
\<close>

definition add_row :: "('a::plus) list \<Rightarrow> 'a list \<Rightarrow> 'a list" where
  "add_row row f =
     (if length f = length row then map2 (+) row f else map (\<lambda>x. x + hd f) row)"

text \<open>Lines 100 to 109, for a view that is not skipped.\<close>

definition add_view ::
  "args \<Rightarrow> nat \<Rightarrow> 'a view \<Rightarrow> ('a::{one,plus}) acc \<Rightarrow> py_error + 'a acc" where
  "add_view a img_id v st =
     (let mask = mask_of v;
          vis = map2 (\<lambda>row m. row[img_id := m]) (vis_id st) mask
      in if keep_features_in_memory a \<and> \<not> has_openseg_model a then Inl UnboundLocalError
         else
           let ex = (if keep_features_in_memory a then extracted st
                     else extracted st @ [img_id])
           in case gather (feat_2d v) (mapping v) of
                Inl e \<Rightarrow> Inl e
              | Inr feat_2d_3d \<Rightarrow>
                  let cnt = map2 (\<lambda>c m. if m \<noteq> 0 then c + 1 else c) (counter st) mask
                  in if chans (feat_2d v) \<noteq> feat_dim a \<and> chans (feat_2d v) \<noteq> 1
                     then Inl RuntimeError
                     else Inr \<lparr>counter = cnt,
                               sum_features =
                                 map2 (\<lambda>row (m, f). if m \<noteq> 0 then add_row row f else row)
                                   (sum_features st) (zip mask feat_2d_3d),
                               vis_id = vis,
                               extracted = ex\<rparr>)"

text \<open>One iteration of the loop of line 84.\<close>

definition loop_body ::
  "args \<Rightarrow> nat \<Rightarrow> nat \<Rightarrow> 'a view \<Rightarrow> ('a::{one,plus}) acc \<Rightarrow> py_error + 'a acc" where
  "loop_body a n_points img_id v st =
     (if length (mapping v) \<noteq> n_points then Inl ValueError
      else if sum_list (mask_of v) = 0 then Inr st
      else add_view a img_id v st)"

fun view_loop ::
  "args \<Rightarrow> nat \<Rightarrow> nat \<Rightarrow> 'a view list \<Rightarrow> ('a::{one,plus}) acc \<Rightarrow> py_error + 'a acc" where
  "view_loop a n_points img_id [] st = Inr st"
| "view_loop a n_points img_id (v # vs) st =
     (case loop_body a n_points img_id v st of
        Inl e \<Rightarrow> Inl e
      | Inr st' \<Rightarrow> view_loop a n_points (Suc img_id) vs st')"

subsection \<open>Finalization\<close>

text \<open>The literal \<^verbatim>\<open>1e-5\<close>, written with the operations of the entry type.\<close>

definition ten :: "'a::{one,plus}" where
  "ten = 1 + 1 + 1 + 1 + 1 + 1 + 1 + 1 + 1 + 1"

definition py_1e_5 :: "'a::{one,plus,times,inverse}" where
  "py_1e_5 = 1 / (ten * ten * ten * ten * ten)"

text \<open>\<^verbatim>\<open>vis_id.nonzero(as_tuple=False)\<close>: the positions of the non-zero entries, row by row.\<close>

definition nonzero :: "int list list \<Rightarrow> (nat \<times> nat) list" where
  "nonzero vis =
     concat (map (\<lambda>i. map (\<lambda>j. (i, j)) (filter (\<lambda>j. vis ! i ! j \<noteq> 0) [0..<length (vis ! i)]))
               [0..<length vis])"

text \<open>\<^verbatim>\<open>torch.unique\<close>: the distinct values, ascending.\<close>

definition unique :: "nat list \<Rightarrow> nat list" where
  "unique xs = sort (remdups xs)"

record 'a fused =
  feat_bank :: "'a list list"
  point_ids :: "nat list"
  final :: "'a acc"  \<comment> \<open>the accumulator as lines 111 to 113 leave it\<close>

text \<open>Lines 111 to 113. The assignment of line 111 writes into \<^verbatim>\<open>counter\<close> itself.\<close>

definition finalize :: "('a::{zero,one,plus,times,inverse}) acc \<Rightarrow> 'a fused" where
  "finalize st =
     (let cnt = map (\<lambda>c. if c = 0 then py_1e_5 else c) (counter st)
      in \<lparr>feat_bank = map2 (\<lambda>row c. map (\<lambda>x. x / c) row) (sum_features st) cnt,
          point_ids = unique (map fst (nonzero (vis_id st))),
          final = st\<lparr>counter := cnt\<rparr>\<rparr>)"

text \<open>Lines 66 to 116: what is handed to \<^verbatim>\<open>save_fused_feature\<close>.\<close>

definition fuse ::
  "args \<Rightarrow> nat \<Rightarrow> 'a view list \<Rightarrow> py_error + ('a::{zero,one,plus,times,inverse}) fused" where
  "fuse a n_points views =
     (case view_loop a n_points 0 views (init_acc a n_points (length views)) of
        Inl e \<Rightarrow> Inl e
      | Inr st \<Rightarrow> Inr (finalize st))"

subsection \<open>The scene driver\<close>

datatype 'a outcome =
    Return_1              \<comment> \<open>line 64: every output file is there already\<close>
  | Saved "'a fused"      \<comment> \<open>line 116: \<^verbatim>\<open>save_fused_feature\<close> is called\<close>

text \<open>Lines 55 to 62: the number of output files that exist.\<close>

definition n_finished :: "string set \<Rightarrow> string \<Rightarrow> string \<Rightarrow> nat \<Rightarrow> nat" where
  "n_finished fs out_dir scene_id n_interval =
     fold (\<lambda>n k. if shard_path out_dir scene_id n \<in> fs then k + 1 else k) [0..<n_interval] 0"

definition process_one_scene ::
  "string set \<Rightarrow> string \<Rightarrow> string \<Rightarrow> args \<Rightarrow> nat \<Rightarrow> 'a view list \<Rightarrow>
     py_error + ('a::{zero,one,plus,times,inverse}) outcome" where
  "process_one_scene fs data_path out_dir a n_points views =
     (let scene_id = scene_id_of data_path;
          n_interval = num_rand_file_per_scene a
      in if n_finished fs out_dir scene_id n_interval = n_interval then Inr Return_1
         else case fuse a n_points views of
                Inl e \<Rightarrow> Inl e
              | Inr r \<Rightarrow> Inr (Saved r))"

subsection \<open>The unoptimized loop\<close>

text \<open>
  The loop without the test of line 95: a view whose mask sums to zero is processed like
  any other. The script does not contain it; it is what the skip is compared with.
\<close>

definition loop_body_unopt ::
  "args \<Rightarrow> nat \<Rightarrow> nat \<Rightarrow> 'a view \<Rightarrow> ('a::{one,plus}) acc \<Rightarrow> py_error + 'a acc" where
  "loop_body_unopt a n_points img_id v st =
     (if length (mapping v) \<noteq> n_points then Inl ValueError
      else add_view a img_id v st)"

fun view_loop_unopt ::
  "args \<Rightarrow> nat \<Rightarrow> nat \<Rightarrow> 'a view list \<Rightarrow> ('a::{one,plus}) acc \<Rightarrow> py_error + 'a acc" where
  "view_loop_unopt a n_points img_id [] st = Inr st"
| "view_loop_unopt a n_points img_id (v # vs) st =
     (case loop_body_unopt a n_points img_id v st of
        Inl e \<Rightarrow> Inl e
      | Inr st' \<Rightarrow> view_loop_unopt a n_points (Suc img_id) vs st')"

definition fuse_unopt ::
  "args \<Rightarrow> nat \<Rightarrow> 'a view list \<Rightarrow> py_error + ('a::{zero,one,plus,times,inverse}) fused" where
  "fuse_unopt a n_points views =
     (case view_loop_unopt a n_points 0 views (init_acc a n_points (length views)) of
        Inl e \<Rightarrow> Inl e
      | Inr st \<Rightarrow> Inr (finalize st))"

subsection \<open>The main function\<close>

text \<open>
  The command line after \<^verbatim>\<open>get_args\<close>. \<^verbatim>\<open>process_id_range\<close> is given as line 187 parses
  it (a value that does not parse raises there, before any scene is looked at).
\<close>

record cli =
  split :: string
  data_dir :: string
  output_dir :: string
  openseg_model :: string
  process_id_range :: "(int \<times> int) option"

text \<open>Lines 135 to 167: the settings main writes into \<^verbatim>\<open>args\<close>.\<close>

definition main_args :: "cli \<Rightarrow> args" where
  "main_args c =
     \<lparr>num_rand_file_per_scene = (if split c = ''train'' then 5 else 1),
      feat_dim = 768,
      keep_features_in_memory = False,
      has_openseg_model = (openseg_model c \<noteq> [])\<rparr>"

text \<open>
  Line 182. The file system is an argument because the \<^verbatim>\<open>glob\<close> of line 181 would
  read it; that line is a comment, and \<open>fs\<close> is not used.
\<close>

definition data_paths :: "string set \<Rightarrow> cli \<Rightarrow> string list" where
  "data_paths fs c =
     [join (join (join (data_dir c) ''scannet_3d'') (split c)) ''scene0479_00_vh_clean_2.pth'']"

text \<open>Lines 188 to 193: the scenes for which \<^verbatim>\<open>process_one_scene\<close> is called, in order.\<close>

definition in_id_range :: "(int \<times> int) option \<Rightarrow> nat \<Rightarrow> bool" where
  "in_id_range id_range i =
     (case id_range of
        None \<Rightarrow> True
      | Some (lo, hi) \<Rightarrow> \<not> (int i < lo \<or> int i > hi))"

definition main_calls :: "string set \<Rightarrow> cli \<Rightarrow> string list" where
  "main_calls fs c =
     map (\<lambda>i. data_paths fs c ! i)
       (filter (in_id_range (process_id_range c)) [0..<length (data_paths fs c)])"

subsection \<open>Single-precision entries\<close>

text \<open>
  A \<^verbatim>\<open>float32\<close> value that is a number, as the rational it stands for. Every operation
  returns the exact result rounded to the nearest value with 24 significant bits, ties to
  the even significand. Exponent range, infinities and NaN are not modelled.
\<close>

datatype f32 = F32 rat

text \<open>\<open>\<lfloor>log\<^sub>2 \<bar>x\<bar>\<rfloor>\<close> for \<open>x \<noteq> 0\<close>.\<close>

definition ilog2 :: "rat \<Rightarrow> int" where
  "ilog2 x = (let (n, d) = quotient_of \<bar>x\<bar>; k = bitlen n - bitlen d
              in if power_int 2 k \<le> \<bar>x\<bar> then k else k - 1)"

definition round_half_even :: "rat \<Rightarrow> int" where
  "round_half_even y = (let f = \<lfloor>y\<rfloor>; d = y - of_int f
     in if d < 1 / 2 \<or> (d = 1 / 2 \<and> even f) then f else f + 1)"

definition round_f32 :: "rat \<Rightarrow> f32" where
  "round_f32 x = (if x = 0 then F32 0 else
     let q = power_int 2 (ilog2 x - 23) in F32 (of_int (round_half_even (x / q)) * q))"

fun val :: "f32 \<Rightarrow> rat" where
  "val (F32 x) = x"

instantiation f32 :: "{zero,one,plus,times,inverse}"
begin

definition zero_f32 :: f32 where "zero_f32 = F32 0"

definition one_f32 :: f32 where "one_f32 = F32 1"

definition plus_f32 :: "f32 \<Rightarrow> f32 \<Rightarrow> f32" where
  "plus_f32 x y = round_f32 (val x + val y)"

definition times_f32 :: "f32 \<Rightarrow> f32 \<Rightarrow> f32" where
  "times_f32 x y = round_f32 (val x * val y)"

definition divide_f32 :: "f32 \<Rightarrow> f32 \<Rightarrow> f32" where
  "divide_f32 x y = round_f32 (val x / val y)"

definition inverse_f32 :: "f32 \<Rightarrow> f32" where
  "inverse_f32 x = round_f32 (1 / val x)"

instance ..

end

subsection \<open>Notions used in the statements\<close>

text \<open>Point \<open>p\<close> is visible in a view: its mask entry is not zero.\<close>

definition visible :: "'a view \<Rightarrow> nat \<Rightarrow> bool" where
  "visible v p = (mask_of v ! p \<noteq> 0)"

text \<open>The views of a list in which point \<open>p\<close> is visible, in order.\<close>

definition seen_in :: "'a view list \<Rightarrow> nat \<Rightarrow> 'a view list" where
  "seen_in vs p = filter (\<lambda>v. visible v p) vs"

text \<open>No point is visible in the view.\<close>

definition empty_view :: "'a view \<Rightarrow> bool" where
  "empty_view v = list_all (\<lambda>m. m = 0) (mask_of v)"

text \<open>The mask has no negative entry, as the 0/1 masks of the projector.\<close>

definition nonneg_mask :: "'a view \<Rightarrow> bool" where
  "nonneg_mask v = list_all (\<lambda>m. 0 \<le> m) (mask_of v)"

text \<open>The test of line 95, and the points a view adds to.\<close>

definition skipped :: "'a view \<Rightarrow> bool" where
  "skipped v = (sum_list (mask_of v) = 0)"

definition counted :: "'a view \<Rightarrow> nat \<Rightarrow> bool" where
  "counted v p = (\<not> skipped v \<and> mask_of v ! p \<noteq> 0)"

text \<open>
  The feature vector gathered for point \<open>p\<close>, and the row it adds to \<^verbatim>\<open>sum_features[p]\<close>
  (itself, or its only entry in every column when the field has one channel).
\<close>

definition gathered :: "'a view \<Rightarrow> nat \<Rightarrow> 'a list" where
  "gathered v p = pixel (feat_2d v) (mapping v ! p)"

definition addend :: "nat \<Rightarrow> 'a view \<Rightarrow> nat \<Rightarrow> 'a list" where
  "addend F v p =
     (if chans (feat_2d v) = F then gathered v p else replicate F (hd (gathered v p)))"

text \<open>The views on which an iteration of the loop does not raise.\<close>

definition view_ok :: "args \<Rightarrow> nat \<Rightarrow> 'a view \<Rightarrow> bool" where
  "view_ok a n v =
     (length (mapping v) = n \<and>
      (skipped v \<or>
       (\<not> (keep_features_in_memory a \<and> \<not> has_openseg_model a) \<and>
        list_all (coords_ok (feat_2d v)) (mapping v) \<and>
        (chans (feat_2d v) = feat_dim a \<or> chans (feat_2d v) = 1))))"

definition shape_ok :: "nat \<Rightarrow> 'a acc \<Rightarrow> bool" where
  "shape_ok n st =
     (length (counter st) = n \<and> length (sum_features st) = n \<and> length (vis_id st) = n)"

subsection \<open>A small scene\<close>

text \<open>
  Two points and fields of two channels on a 1 by 2 image. View \<open>a\<close> sees point 0, view
  \<open>b\<close> sees both points, view \<open>e\<close> sees none.
\<close>

definition ex_args :: args where
  "ex_args = \<lparr>num_rand_file_per_scene = 1, feat_dim = 2, keep_features_in_memory = False,
              has_openseg_model = True\<rparr>"

definition ex_view_a :: "rat view" where
  "ex_view_a = \<lparr>mapping = [(0, 0, 1), (0, 1, 0)], feat_2d = tensor3_of 1 2 [[[1, 5]], [[2, 6]]]\<rparr>"

definition ex_view_b :: "rat view" where
  "ex_view_b = \<lparr>mapping = [(0, 1, 1), (0, 0, 1)], feat_2d = tensor3_of 1 2 [[[7, 3]], [[8, 4]]]\<rparr>"

definition ex_view_e :: "rat view" where
  "ex_view_e = \<lparr>mapping = [(0, 0, 0), (0, 0, 0)], feat_2d = tensor3_of 1 2 [[[9, 9]], [[9, 9]]]\<rparr>"

text \<open>View \<open>n\<close> sees both points, with the features \<open>(-1, 0)\<close> and \<open>(0, 0)\<close>.\<close>

definition ex_view_n :: "rat view" where
  "ex_view_n = \<lparr>mapping = [(0, 0, 1), (0, 1, 1)], feat_2d = tensor3_of 1 2 [[[- 1, 0]], [[0, 0]]]\<rparr>"

text \<open>
  Lines 104 to 109 raise for no view like this one: every coordinate is within the field,
  and the field has \<^verbatim>\<open>feat_dim\<close> channels, or one channel, which is broadcast.
\<close>

definition gather_ok :: "args \<Rightarrow> 'a view \<Rightarrow> bool" where
  "gather_ok a v =
     (list_all (coords_ok (feat_2d v)) (mapping v) \<and>
      (chans (feat_2d v) = feat_dim a \<or> chans (feat_2d v) = 1))"

text \<open>
  Single-precision views of a scene of one point: the feature is \<open>2\<^sup>2\<^sup>4\<close> in one and 1 in the
  other, in both channels.
\<close>

definition ex_f32_big :: "f32 view" where
  "ex_f32_big =
     \<lparr>mapping = [(0, 0, 1)], feat_2d = tensor3_of 1 1 [[[F32 16777216]], [[F32 16777216]]]\<rparr>"

definition ex_f32_one :: "f32 view" where
  "ex_f32_one = \<lparr>mapping = [(0, 0, 1)], feat_2d = tensor3_of 1 1 [[[F32 1]], [[F32 1]]]\<rparr>"

section \<open>Properties\<close>

subsection \<open>One iteration\<close>

lemma length_mask_of [simp]: "length (mask_of v) = length (mapping v)"
  by (simp add: mask_of_def)

lemma add_view_ok:
  "(\<exists>st'. add_view a i v st = Inr st') \<longleftrightarrow>
     (\<not> (keep_features_in_memory a \<and> \<not> has_openseg_model a) \<and>
        list_all (coords_ok (feat_2d v)) (mapping v) \<and>
        (chans (feat_2d v) = feat_dim a \<or> chans (feat_2d v) = 1))"
  by (auto simp: add_view_def gather_def Let_def split: sum.splits)

lemma loop_body_ok: "(\<exists>st'. loop_body a n i v st = Inr st') \<longleftrightarrow> view_ok a n v"
  unfolding loop_body_def view_ok_def skipped_def using add_view_ok [of a i v st]
  by auto

lemma add_view_point:
  assumes "add_view a i v st = Inr st'" and "length (mapping v) = n" and "shape_ok n st"
  shows "shape_ok n st'"
    and "p < n \<Longrightarrow> counter st' ! p = (if mask_of v ! p \<noteq> 0 then counter st ! p + 1 else counter st ! p)"
    and "p < n \<Longrightarrow> sum_features st' ! p =
           (if mask_of v ! p \<noteq> 0 then add_row (sum_features st ! p) (gathered v p)
            else sum_features st ! p)"
    and "p < n \<Longrightarrow> vis_id st' ! p = (vis_id st ! p)[i := mask_of v ! p]"
    and "extracted st' = (if keep_features_in_memory a then extracted st else extracted st @ [i])"
  using assms
  by (auto simp: add_view_def gather_def Let_def shape_ok_def gathered_def split: sum.splits if_splits)

lemma loop_body_point:
  assumes "loop_body a n i v st = Inr st'" and "shape_ok n st"
  shows "shape_ok n st'"
    and "p < n \<Longrightarrow> counter st' ! p = (if counted v p then counter st ! p + 1 else counter st ! p)"
    and "p < n \<Longrightarrow> sum_features st' ! p =
           (if counted v p then add_row (sum_features st ! p) (gathered v p)
            else sum_features st ! p)"
    and "p < n \<Longrightarrow> vis_id st' ! p = (if skipped v then vis_id st ! p else (vis_id st ! p)[i := mask_of v ! p])"
    and "extracted st' = (if skipped v \<or> keep_features_in_memory a then extracted st else extracted st @ [i])"
proof -
  from assms(1) have len: "length (mapping v) = n"
    by (auto simp: loop_body_def split: if_splits)
  from assms(1) consider (skip) "skipped v" "st' = st"
    | (add) "\<not> skipped v" "add_view a i v st = Inr st'"
    by (auto simp: loop_body_def skipped_def split: if_splits)
  note cases = this
  show "shape_ok n st'"
    using cases add_view_point(1) [OF _ len assms(2)] assms(2) by cases auto
  show "p < n \<Longrightarrow> counter st' ! p = (if counted v p then counter st ! p + 1 else counter st ! p)"
    using cases add_view_point(2) [OF _ len assms(2)] by cases (auto simp: counted_def)
  show "p < n \<Longrightarrow> sum_features st' ! p =
           (if counted v p then add_row (sum_features st ! p) (gathered v p)
            else sum_features st ! p)"
    using cases add_view_point(3) [OF _ len assms(2)] by cases (auto simp: counted_def)
  show "p < n \<Longrightarrow> vis_id st' ! p = (if skipped v then vis_id st ! p else (vis_id st ! p)[i := mask_of v ! p])"
    using cases add_view_point(4) [OF _ len assms(2)] by cases auto
  show "extracted st' = (if skipped v \<or> keep_features_in_memory a then extracted st else extracted st @ [i])"
    using cases add_view_point(5) [OF _ len assms(2)] by cases auto
qed

lemma view_loop_ok:
  "(\<exists>st'. view_loop a n i vs st = Inr st') \<longleftrightarrow> list_all (view_ok a n) vs"
proof (induction vs arbitrary: i st)
  case Nil
  show ?case by simp
next
  case (Cons v vs)
  show ?case
  proof (cases "loop_body a n i v st")
    case (Inl e)
    with loop_body_ok [of a n i v st] show ?thesis by simp
  next
    case (Inr st1)
    with loop_body_ok [of a n i v st] Cons.IH [of "Suc i" st1] show ?thesis by simp
  qed
qed

lemma view_loop_point:
  assumes "view_loop a n i vs st = Inr st'" and "shape_ok n st"
  shows "shape_ok n st'"
    and "p < n \<Longrightarrow> counter st' ! p = fold (\<lambda>v c. if counted v p then c + 1 else c) vs (counter st ! p)"
    and "p < n \<Longrightarrow> sum_features st' ! p =
           fold (\<lambda>v row. if counted v p then add_row row (gathered v p) else row) vs (sum_features st ! p)"
  using assms
proof (induction vs arbitrary: i st)
  case Nil
  {
    case 1 then show ?case by simp
  next
    case 2 then show ?case by simp
  next
    case 3 then show ?case by simp
  }
next
  case (Cons v vs)
  {
    case 1
    then obtain st1 where b: "loop_body a n i v st = Inr st1" and l: "view_loop a n (Suc i) vs st1 = Inr st'"
      by (auto split: sum.splits)
    from loop_body_point(1) [OF b 1(2)] Cons.IH(1) [OF l] show ?case by simp
  next
    case 2
    then obtain st1 where b: "loop_body a n i v st = Inr st1" and l: "view_loop a n (Suc i) vs st1 = Inr st'"
      by (auto split: sum.splits)
    from loop_body_point(1,2) [OF b 2(3)] Cons.IH(2) [OF 2(1) l] 2(1) show ?case by simp
  next
    case 3
    then obtain st1 where b: "loop_body a n i v st = Inr st1" and l: "view_loop a n (Suc i) vs st1 = Inr st'"
      by (auto split: sum.splits)
    from loop_body_point(1,3) [OF b 3(3)] Cons.IH(3) [OF 3(1) l] 3(1) show ?case by simp
  }
qed


lemma length_gathered [simp]: "length (gathered v p) = chans (feat_2d v)"
  by (simp add: gathered_def pixel_def split: prod.splits)

lemma length_addend [simp]: "length (addend F v p) = F"
  by (simp add: addend_def)

lemma length_add_row [simp]: "length (add_row row f) = length row"
  by (simp add: add_row_def)

lemma add_row_addend:
  assumes "length row = F" and "chans (feat_2d v) = F \<or> chans (feat_2d v) = 1"
  shows "add_row row (gathered v p) = map2 (+) row (addend F v p)"
proof (cases "chans (feat_2d v) = F")
  case True
  with assms show ?thesis by (simp add: add_row_def addend_def)
next
  case False
  with assms have "map (\<lambda>x. x + hd (gathered v p)) row = map2 (+) row (replicate F (hd (gathered v p)))"
    by (intro nth_equalityI) auto
  with False assms show ?thesis by (simp add: add_row_def addend_def)
qed

lemma view_loop_vis:
  assumes "view_loop a n i vs st = Inr st'" and "shape_ok n st" and "p < n"
  shows "length (vis_id st' ! p) = length (vis_id st ! p)"
    and "j < length (vis_id st ! p) \<Longrightarrow> vis_id st' ! p ! j =
           (if i \<le> j \<and> j < i + length vs \<and> \<not> skipped (vs ! (j - i))
            then mask_of (vs ! (j - i)) ! p else vis_id st ! p ! j)"
  using assms(1,2)
proof (induction vs arbitrary: i st)
  case Nil
  {
    case 1 then show ?case by simp
  next
    case 2 then show ?case by simp
  }
next
  case (Cons v vs)
  {
    case 1
    then obtain st1 where b: "loop_body a n i v st = Inr st1" and l: "view_loop a n (Suc i) vs st1 = Inr st'"
      by (auto split: sum.splits)
    from loop_body_point(1,4) [OF b 1(2)] Cons.IH(1) [OF l] assms(3) show ?case by simp
  next
    case 2
    then obtain st1 where b: "loop_body a n i v st = Inr st1" and l: "view_loop a n (Suc i) vs st1 = Inr st'"
      by (auto split: sum.splits)
    have s1: "shape_ok n st1" by (rule loop_body_point(1) [OF b 2(3)])
    have v1: "vis_id st1 ! p = (if skipped v then vis_id st ! p else (vis_id st ! p)[i := mask_of v ! p])"
      by (rule loop_body_point(4) [OF b 2(3) assms(3)])
    then have len: "j < length (vis_id st1 ! p)" using 2(1) by simp
    have "vis_id st' ! p ! j =
           (if Suc i \<le> j \<and> j < Suc i + length vs \<and> \<not> skipped (vs ! (j - Suc i))
            then mask_of (vs ! (j - Suc i)) ! p else vis_id st1 ! p ! j)"
      by (rule Cons.IH(2) [OF len l s1])
    then show ?case using v1 2(1)
      by (cases "j = i") (auto simp: nth_Cons' Suc_diff_Suc less_Suc_eq_le)
  }
qed

lemma unique_eq: "unique xs = sorted_list_of_set (set xs)"
  by (simp add: unique_def sorted_list_of_set_sort_remdups)

lemma set_nonzero:
  "set (map fst (nonzero vis)) = {p. p < length vis \<and> (\<exists>j<length (vis ! p). vis ! p ! j \<noteq> 0)}"
proof -
  have "p \<in> set (map fst (nonzero vis))" if "p < length vis" "j < length (vis ! p)" "vis ! p ! j \<noteq> 0" for p j
  proof -
    from that have "(p, j) \<in> set (nonzero vis)" by (auto simp: nonzero_def)
    then show ?thesis by force
  qed
  moreover have "p < length vis \<and> (\<exists>j<length (vis ! p). vis ! p ! j \<noteq> 0)" if "p \<in> set (map fst (nonzero vis))" for p
    using that by (auto simp: nonzero_def)
  ultimately show ?thesis by blast
qed

lemma point_ids_finalize:
  "point_ids (finalize st) =
     sorted_list_of_set {p. p < length (vis_id st) \<and> (\<exists>j<length (vis_id st ! p). vis_id st ! p ! j \<noteq> 0)}"
  by (simp add: finalize_def Let_def unique_eq set_nonzero del: set_map)

lemma shape_ok_init [simp]: "shape_ok n (init_acc a n k)"
  by (simp add: shape_ok_def init_acc_def)

lemma view_loop_point_ids:
  assumes "view_loop a n 0 vs (init_acc a n (length vs)) = Inr st"
  shows "point_ids (finalize st) = sorted_list_of_set {p. p < n \<and> (\<exists>v\<in>set vs. counted v p)}"
proof -
  let ?st0 = "init_acc a n (length vs) :: 'a acc"
  have sh: "shape_ok n st" by (rule view_loop_point(1) [OF assms shape_ok_init])
  have len: "length (vis_id st ! p) = length vs" if "p < n" for p
    using view_loop_vis(1) [OF assms shape_ok_init that] that by (simp add: init_acc_def)
  have nth: "vis_id st ! p ! j = (if skipped (vs ! j) then 0 else mask_of (vs ! j) ! p)"
    if "p < n" "j < length vs" for p j
    using view_loop_vis(2) [OF assms shape_ok_init that(1), of j] that by (simp add: init_acc_def)
  have "(\<exists>j<length (vis_id st ! p). vis_id st ! p ! j \<noteq> 0) \<longleftrightarrow> (\<exists>v\<in>set vs. counted v p)"
    if "p < n" for p
  proof -
    have "(\<exists>j<length (vis_id st ! p). vis_id st ! p ! j \<noteq> 0) \<longleftrightarrow> (\<exists>j<length vs. counted (vs ! j) p)"
      using len [OF that] nth [OF that] by (auto simp: counted_def split: if_splits)
    then show ?thesis by (simp add: in_set_conv_nth Bex_def) blast
  qed
  then have "{p. p < length (vis_id st) \<and> (\<exists>j<length (vis_id st ! p). vis_id st ! p ! j \<noteq> 0)}
      = {p. p < n \<and> (\<exists>v\<in>set vs. counted v p)}"
    using sh by (auto simp: shape_ok_def)
  then show ?thesis by (simp add: point_ids_finalize)
qed

subsection \<open>The check for exported scenes\<close>

lemma fold_count_nat:
  "fold (\<lambda>n k. if P n then k + 1 else k) xs (c::nat) = c + length (filter P xs)"
  by (induction xs arbitrary: c) auto

lemma length_filter_eq_iff: "length (filter P xs) = length xs \<longleftrightarrow> (\<forall>x\<in>set xs. P x)"
proof
  assume "length (filter P xs) = length xs"
  then show "\<forall>x\<in>set xs. P x"
    using length_filter_less [of _ xs P] by fastforce
next
  assume "\<forall>x\<in>set xs. P x"
  then show "length (filter P xs) = length xs" by simp
qed

lemma n_finished_eq:
  "n_finished fs out_dir sid k = k \<longleftrightarrow> (\<forall>i<k. shard_path out_dir sid i \<in> fs)"
proof -
  have "n_finished fs out_dir sid k = length (filter (\<lambda>i. shard_path out_dir sid i \<in> fs) [0..<k])"
    by (simp add: n_finished_def fold_count_nat)
  then show ?thesis
    using length_filter_eq_iff [of "\<lambda>i. shard_path out_dir sid i \<in> fs" "[0..<k]"] by auto
qed

text \<open>
  C8: \<^verbatim>\<open>process_one_scene\<close> returns at line 64, before any view is looked at and without
  calling \<^verbatim>\<open>save_fused_feature\<close>, exactly when each of the \<^verbatim>\<open>num_rand_file_per_scene\<close>
  output files of the scene exists in the output directory. When one of them is missing
  the scene is fused from the zero accumulator, whatever files exist.
\<close>

theorem already_exported_skip:
  "(process_one_scene fs data_path out_dir a n vs = Inr Return_1 \<longleftrightarrow>
      (\<forall>k<num_rand_file_per_scene a. shard_path out_dir (scene_id_of data_path) k \<in> fs)) \<and>
   (\<not> (\<forall>k<num_rand_file_per_scene a. shard_path out_dir (scene_id_of data_path) k \<in> fs) \<longrightarrow>
      process_one_scene fs data_path out_dir a n vs = map_sum id Saved (fuse a n vs))"
  using n_finished_eq [of fs out_dir "scene_id_of data_path" "num_rand_file_per_scene a"]
  by (auto simp: process_one_scene_def Let_def split: sum.splits)

lemma scene_id_example:
  "scene_id_of ''data/scannet_3d/val/scene0479_00_vh_clean_2.pth'' = ''scene0479_00''"
  by code_simp

lemma shard_example: "shard_path ''out'' ''scene0479_00'' 0 = ''out/scene0479_00_0.pt''"
  by code_simp

theorem already_exported_skip_witness:
  "process_one_scene {''out/scene0479_00_0.pt''}
     ''data/scannet_3d/val/scene0479_00_vh_clean_2.pth'' ''out''
     \<lparr>num_rand_file_per_scene = 1, feat_dim = 2, keep_features_in_memory = False,
      has_openseg_model = True\<rparr> 3 ([] :: rat view list) = Inr Return_1 \<and>
   process_one_scene {}
     ''data/scannet_3d/val/scene0479_00_vh_clean_2.pth'' ''out''
     \<lparr>num_rand_file_per_scene = 1, feat_dim = 2, keep_features_in_memory = False,
      has_openseg_model = True\<rparr> 3 ([] :: rat view list) =
     map_sum id Saved
       (fuse \<lparr>num_rand_file_per_scene = 1, feat_dim = 2, keep_features_in_memory = False,
      has_openseg_model = True\<rparr> 3 [])"
  using already_exported_skip [of "{''out/scene0479_00_0.pt''}"
      "''data/scannet_3d/val/scene0479_00_vh_clean_2.pth''" "''out''"
      "\<lparr>num_rand_file_per_scene = 1, feat_dim = 2, keep_features_in_memory = False,
      has_openseg_model = True\<rparr>" 3 "[] :: rat view list"]
    already_exported_skip [of "{}"
      "''data/scannet_3d/val/scene0479_00_vh_clean_2.pth''" "''out''"
      "\<lparr>num_rand_file_per_scene = 1, feat_dim = 2, keep_features_in_memory = False,
      has_openseg_model = True\<rparr>" 3 "[] :: rat view list"]
  by (simp add: scene_id_example shard_example)

subsection \<open>Exact arithmetic\<close>

lemma py_1e_5_exact: "(py_1e_5 :: 'a::field_char_0) = 1 / 100000"
  by (simp add: py_1e_5_def ten_def)

lemma fold_count:
  "fold (\<lambda>v c. if P v then c + 1 else c) vs (c0 :: 'a::semiring_1) = c0 + of_nat (length (filter P vs))"
  by (induction vs arbitrary: c0) (auto simp: algebra_simps)

lemma fold_rows:
  fixes row :: "'a::comm_monoid_add list"
  assumes "length row = F" and "\<And>v. length (g v) = F"
  shows "fold (\<lambda>v row. if P v then map2 (+) row (g v) else row) vs row =
           map (\<lambda>d. row ! d + (\<Sum>v\<leftarrow>filter P vs. g v ! d)) [0..<F]"
  using assms(1)
proof (induction vs arbitrary: row)
  case Nil
  then show ?case by (auto intro: nth_equalityI)
next
  case (Cons v vs)
  show ?case
  proof (cases "P v")
    case True
    have len: "length (map2 (+) row (g v)) = F" using Cons.prems assms(2) by simp
    show ?thesis
      using True Cons.IH [OF len] Cons.prems assms(2)
      by (auto simp: add.assoc)
  next
    case False
    then show ?thesis using Cons.IH [OF Cons.prems] by simp
  qed
qed

lemma counted_visible:
  assumes "nonneg_mask v" and "p < length (mapping v)"
  shows "counted v p = visible v p"
proof -
  have nn: "\<forall>m\<in>set (mask_of v). 0 \<le> m"
    using assms(1) by (simp add: nonneg_mask_def list_all_iff)
  have "mask_of v ! p \<in> set (mask_of v)" using assms(2) by simp
  then have "mask_of v ! p \<noteq> 0 \<Longrightarrow> sum_list (mask_of v) \<noteq> 0"
    using sum_list_nonneg_eq_0_iff [of "mask_of v"] nn by auto
  then show ?thesis by (auto simp: counted_def visible_def skipped_def)
qed

lemma fold_add_row_addend:
  assumes "list_all (view_ok a n) vs" and "length row = feat_dim a"
  shows "fold (\<lambda>v row. if counted v p then add_row row (gathered v p) else row) vs row =
         fold (\<lambda>v row. if counted v p then map2 (+) row (addend (feat_dim a) v p) else row) vs row"
  using assms
proof (induction vs arbitrary: row)
  case Nil
  show ?case by simp
next
  case (Cons v vs)
  show ?case
  proof (cases "counted v p")
    case True
    with Cons.prems(1) have ch: "chans (feat_2d v) = feat_dim a \<or> chans (feat_2d v) = 1"
      by (auto simp: view_ok_def counted_def)
    have eq: "add_row row (gathered v p) = map2 (+) row (addend (feat_dim a) v p)"
      by (rule add_row_addend [OF Cons.prems(2) ch])
    have "length (add_row row (gathered v p)) = feat_dim a" using Cons.prems(2) by simp
    from Cons.IH [OF _ this] Cons.prems(1) True eq show ?thesis by simp
  next
    case False
    with Cons.IH [OF _ Cons.prems(2)] Cons.prems(1) show ?thesis by simp
  qed
qed

lemma finalize_fields:
  "sum_features (final (finalize st)) = sum_features st"
  "vis_id (final (finalize st)) = vis_id st"
  "extracted (final (finalize st)) = extracted st"
  "counter (final (finalize st)) = map (\<lambda>c. if c = 0 then py_1e_5 else c) (counter st)"
  by (simp_all add: finalize_def Let_def)


lemma length_feat_bank: "shape_ok n st \<Longrightarrow> length (feat_bank (finalize st)) = n"
  by (simp add: finalize_def Let_def shape_ok_def)

text \<open>The state after the loop, for exact arithmetic.\<close>

lemma view_loop_exact:
  fixes st :: "'a::{comm_monoid_add,semiring_1} acc"
  assumes "view_loop a n 0 vs (init_acc a n m) = Inr st" and "p < n"
  shows "counter st ! p = of_nat (length (filter (\<lambda>v. counted v p) vs))"
    and "sum_features st ! p =
           map (\<lambda>d. \<Sum>v\<leftarrow>filter (\<lambda>v. counted v p) vs. addend (feat_dim a) v p ! d) [0..<feat_dim a]"
proof -
  let ?st0 = "init_acc a n m :: 'a acc"
  have ok: "list_all (view_ok a n) vs" using view_loop_ok [of a n 0 vs ?st0] assms(1) by auto
  have c0: "counter ?st0 ! p = 0" and s0: "sum_features ?st0 ! p = replicate (feat_dim a) 0"
    using assms(2) by (simp_all add: init_acc_def)
  show "counter st ! p = of_nat (length (filter (\<lambda>v. counted v p) vs))"
    using view_loop_point(2) [OF assms(1) shape_ok_init assms(2)] c0 by (simp add: fold_count)
  have "sum_features st ! p =
      fold (\<lambda>v row. if counted v p then map2 (+) row (addend (feat_dim a) v p) else row) vs
        (replicate (feat_dim a) 0)"
    using view_loop_point(3) [OF assms(1) shape_ok_init assms(2)] s0
      fold_add_row_addend [OF ok, of "replicate (feat_dim a) 0" p] by simp
  also have "\<dots> = map (\<lambda>d. replicate (feat_dim a) 0 ! d +
                 (\<Sum>v\<leftarrow>filter (\<lambda>v. counted v p) vs. addend (feat_dim a) v p ! d)) [0..<feat_dim a]"
    by (rule fold_rows) simp_all
  also have "\<dots> = map (\<lambda>d. \<Sum>v\<leftarrow>filter (\<lambda>v. counted v p) vs. addend (feat_dim a) v p ! d) [0..<feat_dim a]"
    by simp
  finally show "sum_features st ! p =
           map (\<lambda>d. \<Sum>v\<leftarrow>filter (\<lambda>v. counted v p) vs. addend (feat_dim a) v p ! d) [0..<feat_dim a]" .
qed

lemma filter_counted_seen:
  assumes "list_all (view_ok a n) vs" and "list_all nonneg_mask vs" and "p < n"
  shows "filter (\<lambda>v. counted v p) vs = seen_in vs p"
  unfolding seen_in_def
proof (rule filter_cong [OF refl])
  fix v assume "v \<in> set vs"
  with assms have "nonneg_mask v" "p < length (mapping v)"
    by (auto simp: list_all_iff view_ok_def)
  then show "counted v p = visible v p" by (rule counted_visible)
qed

subsection \<open>The mean of the gathered features\<close>

lemma ex_fuse_ab:
  "fuse ex_args 2 [ex_view_a, ex_view_b] =
     Inr \<lparr>feat_bank = [[2, 3], [7, 8]], point_ids = [0, 1],
          final = \<lparr>counter = [2, 1], sum_features = [[4, 6], [7, 8]],
                   vis_id = [[1, 1], [0, 1]], extracted = [0, 1]\<rparr>\<rparr>"
  by code_simp















subsection \<open>The visible points\<close>

text \<open>
  C3: \<^verbatim>\<open>point_ids\<close> lists, in ascending order and once each, exactly the points whose mask
  entry is not zero in at least one view of the scene, for masks without negative entries.
  These are the rows of \<^verbatim>\<open>vis_id\<close> with a non-zero entry, column \<open>j\<close> of \<^verbatim>\<open>vis_id\<close> being
  non-zero where view \<open>j\<close> sees the point, and they are the points whose counter is at
  least 1 before line 111.
\<close>

theorem visible_point_ids:
  fixes st :: "'a::linordered_field acc"
  assumes "view_loop a n 0 vs (init_acc a n (length vs)) = Inr st" and "list_all nonneg_mask vs"
  shows "point_ids (finalize st) = sorted_list_of_set {p. p < n \<and> (\<exists>v\<in>set vs. visible v p)} \<and>
    set (point_ids (finalize st)) =
      {p. p < n \<and> (\<exists>j<length vs. vis_id st ! p ! j \<noteq> 0)} \<and>
    (\<forall>p<n. \<forall>j<length vs. vis_id st ! p ! j \<noteq> 0 \<longleftrightarrow> visible (vs ! j) p) \<and>
    (\<forall>p<n. p \<in> set (point_ids (finalize st)) \<longleftrightarrow> 1 \<le> counter st ! p)"
proof -
  let ?st0 = "init_acc a n (length vs) :: 'a acc"
  have ok: "list_all (view_ok a n) vs" using view_loop_ok [of a n 0 vs ?st0] assms(1) by auto
  have cv: "counted v p = visible v p" if "v \<in> set vs" "p < n" for v p
  proof -
    from that ok assms(2) have "nonneg_mask v" "p < length (mapping v)"
      by (auto simp: list_all_iff view_ok_def)
    then show ?thesis by (rule counted_visible)
  qed
  have sh: "shape_ok n st" by (rule view_loop_point(1) [OF assms(1) shape_ok_init])
  have ids: "point_ids (finalize st) = sorted_list_of_set {p. p < n \<and> (\<exists>v\<in>set vs. counted v p)}"
    by (rule view_loop_point_ids [OF assms(1)])
  have "{p. p < n \<and> (\<exists>v\<in>set vs. counted v p)} = {p. p < n \<and> (\<exists>v\<in>set vs. visible v p)}"
    using cv by auto
  with ids have A: "point_ids (finalize st) = sorted_list_of_set {p. p < n \<and> (\<exists>v\<in>set vs. visible v p)}"
    by simp
  have nth: "vis_id st ! p ! j \<noteq> 0 \<longleftrightarrow> visible (vs ! j) p" if "p < n" "j < length vs" for p j
  proof -
    have "vis_id st ! p ! j = (if skipped (vs ! j) then 0 else mask_of (vs ! j) ! p)"
      using view_loop_vis(2) [OF assms(1) shape_ok_init that(1), of j] that
      by (simp add: init_acc_def)
    then have "vis_id st ! p ! j \<noteq> 0 \<longleftrightarrow> counted (vs ! j) p" by (simp add: counted_def)
    with cv [of "vs ! j" p] that show ?thesis by simp
  qed
  have fin: "finite {p. p < n \<and> (\<exists>v\<in>set vs. visible v p)}" by simp
  have setA: "set (point_ids (finalize st)) = {p. p < n \<and> (\<exists>v\<in>set vs. visible v p)}"
    using A fin by simp
  have B: "set (point_ids (finalize st)) = {p. p < n \<and> (\<exists>j<length vs. vis_id st ! p ! j \<noteq> 0)}"
  proof -
    have "(\<exists>v\<in>set vs. visible v p) \<longleftrightarrow> (\<exists>j<length vs. vis_id st ! p ! j \<noteq> 0)" if "p < n" for p
    proof -
      have "(\<exists>v\<in>set vs. visible v p) \<longleftrightarrow> (\<exists>j<length vs. visible (vs ! j) p)"
        by (metis in_set_conv_nth)
      also have "\<dots> \<longleftrightarrow> (\<exists>j<length vs. vis_id st ! p ! j \<noteq> 0)"
        using nth [OF that] by blast
      finally show ?thesis .
    qed
    then show ?thesis unfolding setA by blast
  qed
  have C: "p \<in> set (point_ids (finalize st)) \<longleftrightarrow> 1 \<le> counter st ! p" if "p < n" for p
  proof -
    have seen: "filter (\<lambda>v. counted v p) vs = seen_in vs p"
      by (rule filter_counted_seen [OF ok assms(2) that])
    have "counter st ! p = of_nat (length (seen_in vs p))"
      using view_loop_exact(1) [OF assms(1) that] seen by simp
    moreover have "(1::'a) \<le> of_nat k \<longleftrightarrow> 1 \<le> k" for k :: nat
      using of_nat_le_iff [of 1 k, where 'a='a] by simp
    moreover have "1 \<le> length (seen_in vs p) \<longleftrightarrow> (\<exists>v\<in>set vs. visible v p)"
      by (auto simp: seen_in_def Suc_le_eq length_greater_0_conv filter_empty_conv simp del: length_greater_0_conv)
    ultimately show ?thesis using setA that by simp
  qed
  from A B nth C show ?thesis by blast
qed

lemma ex_loop_aeb:
  "view_loop ex_args 2 0 [ex_view_a, ex_view_e] (init_acc ex_args 2 (length [ex_view_a, ex_view_e])) =
     Inr \<lparr>counter = [1, 0], sum_features = [[1, 2], [0, 0]],
          vis_id = [[1, 0], [0, 0]], extracted = [0]\<rparr>"
  by code_simp

lemma ex_nonneg_ae: "list_all nonneg_mask [ex_view_a, ex_view_e]"
  by code_simp

theorem visible_point_ids_witness:
  "view_loop ex_args 2 0 [ex_view_a, ex_view_e] (init_acc ex_args 2 (length [ex_view_a, ex_view_e])) =
     Inr \<lparr>counter = [1, 0], sum_features = [[1, 2], [0, 0]],
          vis_id = [[1, 0], [0, 0]], extracted = [0]\<rparr> \<and>
   list_all nonneg_mask [ex_view_a, ex_view_e] \<and>
   point_ids (finalize \<lparr>counter = [1, 0 :: rat], sum_features = [[1, 2], [0, 0]],
          vis_id = [[1, 0], [0, 0]], extracted = [0]\<rparr>) =
     sorted_list_of_set {p. p < 2 \<and> (\<exists>v\<in>set [ex_view_a, ex_view_e]. visible v p)} \<and>
   point_ids (finalize \<lparr>counter = [1, 0 :: rat], sum_features = [[1, 2], [0, 0]],
          vis_id = [[1, 0], [0, 0]], extracted = [0]\<rparr>) = [0]"
proof -
  have "point_ids (finalize \<lparr>counter = [1, 0 :: rat], sum_features = [[1, 2], [0, 0]],
          vis_id = [[1, 0], [0, 0]], extracted = [0]\<rparr>) = [0]"
    by code_simp
  with visible_point_ids [OF ex_loop_aeb ex_nonneg_ae] ex_loop_aeb ex_nonneg_ae
  show ?thesis by blast
qed

subsection \<open>A scene without views\<close>

lemma finalize_init_empty:
  "finalize (init_acc a n 0 :: 'a::linordered_field acc) =
     \<lparr>feat_bank = replicate n (replicate (feat_dim a) 0), point_ids = [],
      final = (init_acc a n 0)\<lparr>counter := replicate n (1 / 100000)\<rparr>\<rparr>"
proof -
  let ?st = "init_acc a n 0 :: 'a acc"
  have cnt: "map (\<lambda>c. if c = 0 then py_1e_5 else c) (counter ?st) = replicate n (1 / 100000 :: 'a)"
    by (simp add: init_acc_def py_1e_5_exact)
  have bank: "map2 (\<lambda>row c. map (\<lambda>x. x / c) row) (sum_features ?st) (replicate n (1 / 100000 :: 'a))
      = replicate n (replicate (feat_dim a) 0)"
    by (rule nth_equalityI) (simp_all add: init_acc_def)
  have "{p. p < length (vis_id ?st) \<and> (\<exists>j<length (vis_id ?st ! p). vis_id ?st ! p ! j \<noteq> 0)} = {}"
    by (auto simp: init_acc_def)
  then have ids: "point_ids (finalize ?st) = []" by (simp add: point_ids_finalize)
  have "feat_bank (finalize ?st) = replicate n (replicate (feat_dim a) 0)"
    using bank cnt by (simp add: finalize_def Let_def)
  moreover have "final (finalize ?st) = ?st\<lparr>counter := replicate n (1 / 100000)\<rparr>"
    using cnt by (simp add: finalize_def Let_def)
  ultimately show ?thesis using ids by (cases "finalize ?st") simp
qed

text \<open>
  C5: a scene with no view, when it is not returned at line 64, is processed to the end:
  the loop leaves the counter 0 at each of the \<open>n\<close> points, line 111 makes it
  \<^verbatim>\<open>1e-5\<close> everywhere, the feature bank handed to \<^verbatim>\<open>save_fused_feature\<close> is the zero
  matrix of \<open>n\<close> rows and \<^verbatim>\<open>feat_dim\<close> columns, and \<^verbatim>\<open>point_ids\<close> is empty.
\<close>

theorem zero_views:
  assumes "\<not> (\<forall>k<num_rand_file_per_scene a. shard_path out_dir (scene_id_of data_path) k \<in> fs)"
  shows "view_loop a n 0 [] (init_acc a n 0) = Inr (init_acc a n 0 :: 'a::linordered_field acc) \<and>
    counter (init_acc a n 0 :: 'a acc) = replicate n 0 \<and>
    process_one_scene fs data_path out_dir a n ([] :: 'a view list) =
      Inr (Saved \<lparr>feat_bank = replicate n (replicate (feat_dim a) 0), point_ids = [],
                  final = (init_acc a n 0)\<lparr>counter := replicate n (1 / 100000)\<rparr>\<rparr>)"
proof -
  have "n_finished fs out_dir (scene_id_of data_path) (num_rand_file_per_scene a)
      \<noteq> num_rand_file_per_scene a"
    using assms n_finished_eq [of fs out_dir "scene_id_of data_path" "num_rand_file_per_scene a"]
    by simp
  then have "process_one_scene fs data_path out_dir a n ([] :: 'a view list) =
      Inr (Saved (finalize (init_acc a n 0)))"
    by (simp add: process_one_scene_def fuse_def Let_def)
  then show ?thesis by (simp add: finalize_init_empty) (simp add: init_acc_def)
qed

lemma ex_not_exported:
  "\<not> (\<forall>k<num_rand_file_per_scene ex_args.
        shard_path ''out'' (scene_id_of ''data/scannet_3d/val/scene0479_00_vh_clean_2.pth'') k \<in> {})"
  by (simp add: ex_args_def)

theorem zero_views_witness:
  "\<not> (\<forall>k<num_rand_file_per_scene ex_args.
        shard_path ''out'' (scene_id_of ''data/scannet_3d/val/scene0479_00_vh_clean_2.pth'') k \<in> {}) \<and>
   process_one_scene {} ''data/scannet_3d/val/scene0479_00_vh_clean_2.pth'' ''out'' ex_args 2
       ([] :: rat view list) =
     Inr (Saved \<lparr>feat_bank = [[0, 0], [0, 0]], point_ids = [],
                 final = \<lparr>counter = [1 / 100000, 1 / 100000], sum_features = [[0, 0], [0, 0]],
                          vis_id = [[], []], extracted = []\<rparr>\<rparr>)"
proof -
  have "replicate 2 (replicate (feat_dim ex_args) (0::rat)) = [[0, 0], [0, 0]]"
    by code_simp
  moreover have "(init_acc ex_args 2 0)\<lparr>counter := replicate 2 (1 / 100000 :: rat)\<rparr> =
      \<lparr>counter = [1 / 100000, 1 / 100000], sum_features = [[0, 0], [0, 0]],
       vis_id = [[], []], extracted = []\<rparr>"
    by code_simp
  ultimately show ?thesis
    using zero_views [OF ex_not_exported, of 2, where 'a = rat] ex_not_exported by simp
qed

subsection \<open>The accumulator during the loop\<close>

text \<open>
  C7, as the script has it: after any number \<open>k\<close> of iterations of the loop,
  \<^verbatim>\<open>counter\<close> and \<^verbatim>\<open>sum_features\<close> have \<open>n\<close> rows, each row of \<^verbatim>\<open>sum_features\<close> has
  \<^verbatim>\<open>feat_dim\<close> entries, no counter is negative, and the row of a point whose counter is 0 is
  the zero row. The sums take the sign of the features, and a point that has been counted
  can have a zero row.
\<close>

theorem accumulator_invariant:
  fixes st :: "'a::linordered_field acc"
  assumes "view_loop a n 0 (take k vs) (init_acc a n (length vs)) = Inr st"
  shows "length (counter st) = n \<and> length (sum_features st) = n \<and>
    (\<forall>p<n. length (sum_features st ! p) = feat_dim a \<and> 0 \<le> counter st ! p \<and>
       (counter st ! p = 0 \<longrightarrow> sum_features st ! p = replicate (feat_dim a) 0))"
proof -
  have sh: "shape_ok n st" by (rule view_loop_point(1) [OF assms shape_ok_init])
  have pt: "length (sum_features st ! p) = feat_dim a \<and> 0 \<le> counter st ! p \<and>
       (counter st ! p = 0 \<longrightarrow> sum_features st ! p = replicate (feat_dim a) 0)" if "p < n" for p
  proof -
    let ?cs = "filter (\<lambda>v. counted v p) (take k vs)"
    have c: "counter st ! p = of_nat (length ?cs)" by (rule view_loop_exact(1) [OF assms that])
    have s: "sum_features st ! p =
        map (\<lambda>d. \<Sum>v\<leftarrow>?cs. addend (feat_dim a) v p ! d) [0..<feat_dim a]"
      by (rule view_loop_exact(2) [OF assms that])
    have "sum_features st ! p = replicate (feat_dim a) 0" if "counter st ! p = 0"
    proof -
      from that c have "?cs = []" by simp
      with s show ?thesis by (auto intro: nth_equalityI)
    qed
    with c s show ?thesis by simp
  qed
  from sh pt show ?thesis by (simp add: shape_ok_def)
qed

lemma ex_loop_n:
  "view_loop ex_args 2 0 (take 1 [ex_view_n, ex_view_e]) (init_acc ex_args 2 (length [ex_view_n, ex_view_e])) =
     Inr \<lparr>counter = [1, 1], sum_features = [[- 1, 0], [0, 0]], vis_id = [[1, 0], [1, 0]],
          extracted = [0]\<rparr>"
  by code_simp

theorem accumulator_invariant_witness:
  "view_loop ex_args 2 0 (take 1 [ex_view_n, ex_view_e]) (init_acc ex_args 2 (length [ex_view_n, ex_view_e])) =
     Inr \<lparr>counter = [1, 1], sum_features = [[- 1, 0], [0, 0]], vis_id = [[1, 0], [1, 0]],
          extracted = [0]\<rparr> \<and>
   length ([[- 1, 0], [0, 0 :: rat]] ! 0) = feat_dim ex_args \<and> 0 \<le> [1, 1 :: rat] ! 0"
proof -
  from accumulator_invariant [OF ex_loop_n]
  have "\<forall>p<2. length ([[- 1, 0], [0, 0 :: rat]] ! p) = feat_dim ex_args \<and> 0 \<le> [1, 1 :: rat] ! p"
    by simp
  then have "length ([[- 1, 0], [0, 0 :: rat]] ! 0) = feat_dim ex_args \<and> 0 \<le> [1, 1 :: rat] ! 0"
    by (rule allE [where x = 0]) simp
  with ex_loop_n show ?thesis by blast
qed

text \<open>
  The features of a view may be negative or zero: after view \<open>n\<close> of the small scene the sum
  of point 0 has the entry \<open>-1\<close>, and point 1 has counter 1 and a zero row.
\<close>

theorem accumulator_invariant_counterexample:
  "view_loop ex_args 2 0 [ex_view_n] (init_acc ex_args 2 1) =
     Inr \<lparr>counter = [1, 1], sum_features = [[- 1, 0], [0, 0]], vis_id = [[1], [1]],
          extracted = [0]\<rparr> \<and>
   [[- 1, 0], [0, 0 :: rat]] ! 0 ! 0 < 0 \<and>
   [1, 1 :: rat] ! 1 \<noteq> 0 \<and> [[- 1, 0], [0, 0 :: rat]] ! 1 = replicate 2 0"
  by code_simp

subsection \<open>Running the finalization again\<close>

text \<open>
  C4, as the script has it: lines 111 to 113 leave \<^verbatim>\<open>sum_features\<close> and \<^verbatim>\<open>vis_id\<close> as they
  are and write \<^verbatim>\<open>1e-5\<close> into the zero entries of \<^verbatim>\<open>counter\<close>. Run again on the accumulator
  they leave, they give the same feature bank, the same \<^verbatim>\<open>point_ids\<close> and the same
  accumulator.
\<close>

theorem finalize_twice:
  fixes st :: "'a::linordered_field acc"
  shows "sum_features (final (finalize st)) = sum_features st \<and>
    vis_id (final (finalize st)) = vis_id st \<and>
    extracted (final (finalize st)) = extracted st \<and>
    counter (final (finalize st)) = map (\<lambda>c. if c = 0 then 1 / 100000 else c) (counter st) \<and>
    finalize (final (finalize st)) = finalize st"
proof -
  let ?f = "\<lambda>c :: 'a. if c = 0 then py_1e_5 else c"
  have ff: "?f \<circ> ?f = ?f" by (auto simp: fun_eq_iff py_1e_5_exact)
  have "finalize (final (finalize st)) = finalize st"
    by (simp add: finalize_def Let_def ff)
  then show ?thesis by (simp add: finalize_fields py_1e_5_exact)
qed

theorem finalize_twice_witness:
  "counter (final (finalize \<lparr>counter = [1, 0 :: rat], sum_features = [[1, 2], [0, 0]],
          vis_id = [[1], [0]], extracted = [0]\<rparr>)) = [1, 1 / 100000] \<and>
   finalize (final (finalize \<lparr>counter = [1, 0 :: rat], sum_features = [[1, 2], [0, 0]],
          vis_id = [[1], [0]], extracted = [0]\<rparr>)) =
     finalize \<lparr>counter = [1, 0 :: rat], sum_features = [[1, 2], [0, 0]],
          vis_id = [[1], [0]], extracted = [0]\<rparr>"
  using finalize_twice [of "\<lparr>counter = [1, 0 :: rat], sum_features = [[1, 2], [0, 0]],
          vis_id = [[1], [0]], extracted = [0]\<rparr>"]
  by simp

text \<open>
  Line 111 assigns into \<^verbatim>\<open>counter\<close> itself: after view \<open>a\<close> of the small scene the counter
  of point 1 is 0, and \<^verbatim>\<open>1e-5\<close> once the finalization has run.
\<close>

theorem finalize_side_effect_counterexample:
  "view_loop ex_args 2 0 [ex_view_a] (init_acc ex_args 2 1) =
     Inr \<lparr>counter = [1, 0], sum_features = [[1, 2], [0, 0]], vis_id = [[1], [0]],
          extracted = [0]\<rparr> \<and>
   counter (final (finalize \<lparr>counter = [1, 0 :: rat], sum_features = [[1, 2], [0, 0]],
          vis_id = [[1], [0]], extracted = [0]\<rparr>)) = [1, 1 / 100000] \<and>
   [1, 1 / 100000] \<noteq> [1, 0 :: rat]"
  by code_simp

subsection \<open>Coordinates of points that are masked out\<close>

text \<open>
  C9: for one view, two coordinate arrays with the same mask column that agree at every
  point whose mask entry is not zero, both within the bounds of the feature field, lead to
  the same result of the iteration: the same counter, the same \<^verbatim>\<open>sum_features\<close> and the
  same \<^verbatim>\<open>vis_id\<close>.
\<close>

theorem masked_coordinates_unused:
  assumes "length mp' = length (mapping v)"
    and "\<forall>p<length mp'. snd (snd (mp' ! p)) = snd (snd (mapping v ! p))"
    and "\<forall>p<length mp'. snd (snd (mapping v ! p)) \<noteq> 0 \<longrightarrow> mp' ! p = mapping v ! p"
    and "list_all (coords_ok (feat_2d v)) (mapping v)"
    and "list_all (coords_ok (feat_2d v)) mp'"
  shows "loop_body a n i (v\<lparr>mapping := mp'\<rparr>) st = loop_body a n i v st"
proof -
  let ?v' = "v\<lparr>mapping := mp'\<rparr>"
  let ?f = "feat_2d v"
  have mask: "mask_of ?v' = mask_of v"
    unfolding mask_of_def using assms(1,2)
    by (intro nth_equalityI) (simp_all add: case_prod_unfold)
  have len: "length (mask_of v) = length mp'" using assms(1) by simp
  have sums: "map2 (\<lambda>row (m, f). if m \<noteq> 0 then add_row row f else row) (sum_features st)
               (zip (mask_of v) (map (pixel ?f) mp')) =
        map2 (\<lambda>row (m, f). if m \<noteq> 0 then add_row row f else row) (sum_features st)
               (zip (mask_of v) (map (pixel ?f) (mapping v)))"
  proof (rule nth_equalityI)
    show "length (map2 (\<lambda>row (m, f). if m \<noteq> 0 then add_row row f else row) (sum_features st)
               (zip (mask_of v) (map (pixel ?f) mp'))) =
        length (map2 (\<lambda>row (m, f). if m \<noteq> 0 then add_row row f else row) (sum_features st)
               (zip (mask_of v) (map (pixel ?f) (mapping v))))"
      using assms(1) by simp
  next
    fix p
    assume "p < length (map2 (\<lambda>row (m, f). if m \<noteq> 0 then add_row row f else row) (sum_features st)
               (zip (mask_of v) (map (pixel ?f) mp')))"
    then have p: "p < length (sum_features st)" "p < length mp'" by simp_all
    have m: "mask_of v ! p = snd (snd (mapping v ! p))"
      using p(2) assms(1) by (simp add: mask_of_def case_prod_unfold)
    have "mask_of v ! p \<noteq> 0 \<Longrightarrow> mp' ! p = mapping v ! p"
      using assms(3) p(2) m by simp
    then show "map2 (\<lambda>row (m, f). if m \<noteq> 0 then add_row row f else row) (sum_features st)
               (zip (mask_of v) (map (pixel ?f) mp')) ! p =
        map2 (\<lambda>row (m, f). if m \<noteq> 0 then add_row row f else row) (sum_features st)
               (zip (mask_of v) (map (pixel ?f) (mapping v))) ! p"
      using p assms(1) by simp
  qed
  have "add_view a i ?v' st = add_view a i v st"
    using assms(4,5) mask sums by (simp add: add_view_def gather_def Let_def)
  then show ?thesis using mask assms(1) by (simp add: loop_body_def)
qed

theorem masked_coordinates_unused_witness:
  "length [(0, 0, 1), (0, 0, 0)] = length (mapping ex_view_a) \<and>
   list_all (coords_ok (feat_2d ex_view_a)) (mapping ex_view_a) \<and>
   list_all (coords_ok (feat_2d ex_view_a)) [(0, 0, 1), (0, 0, 0)] \<and>
   loop_body ex_args 2 0 (ex_view_a\<lparr>mapping := [(0, 0, 1), (0, 0, 0)]\<rparr>) (init_acc ex_args 2 1) =
     loop_body ex_args 2 0 ex_view_a (init_acc ex_args 2 1) \<and>
   loop_body ex_args 2 0 ex_view_a (init_acc ex_args 2 1) =
     Inr \<lparr>counter = [1, 0], sum_features = [[1, 2], [0, 0]], vis_id = [[1], [0]],
          extracted = [0]\<rparr>"
proof -
  have h1: "length [(0, 0, 1), (0, 0, 0)] = length (mapping ex_view_a)"
    by (simp add: ex_view_a_def)
  have h2: "\<forall>p<length [(0, 0, 1), (0, 0, 0 :: int)].
      snd (snd ([(0 :: int, 0 :: int, 1), (0, 0, 0 :: int)] ! p)) = snd (snd (mapping ex_view_a ! p))"
    by (simp add: ex_view_a_def less_Suc_eq)
  have h3: "\<forall>p<length [(0, 0, 1), (0, 0, 0 :: int)].
      snd (snd (mapping ex_view_a ! p)) \<noteq> 0 \<longrightarrow>
        [(0 :: int, 0 :: int, 1), (0, 0, 0 :: int)] ! p = mapping ex_view_a ! p"
    by (simp add: ex_view_a_def less_Suc_eq)
  have h4: "list_all (coords_ok (feat_2d ex_view_a)) (mapping ex_view_a)"
    by code_simp
  have h5: "list_all (coords_ok (feat_2d ex_view_a)) [(0, 0, 1), (0, 0, 0)]"
    by code_simp
  have r: "loop_body ex_args 2 0 ex_view_a (init_acc ex_args 2 1) =
     Inr \<lparr>counter = [1, 0], sum_features = [[1, 2], [0, 0]], vis_id = [[1], [0]],
          extracted = [0]\<rparr>"
    by code_simp
  from masked_coordinates_unused [OF h1 h2 h3 h4 h5, of ex_args 2 0 "init_acc ex_args 2 1"] h1 h4 h5 r
  show ?thesis by simp
qed

subsection \<open>The scenes main processes\<close>

lemma split_from_slash_free:
  "CHR ''/'' \<notin> set ys \<Longrightarrow> split_from ''/'' cur ys = [rev cur @ ys]"
  by (induction ys arbitrary: cur) auto

lemma split_from_not_Nil: "split_from sep cur s \<noteq> []"
  by (induction sep cur s rule: split_from.induct) auto

lemma last_split_from_slash:
  "CHR ''/'' \<notin> set ys \<Longrightarrow> last (split_from ''/'' cur (xs @ CHR ''/'' # ys)) = ys"
proof (induction xs arbitrary: cur)
  case Nil
  then show ?case by (simp add: split_from_slash_free)
next
  case (Cons x xs)
  show ?case
  proof (cases "x = CHR ''/''")
    case True
    then show ?thesis using Cons.IH [OF Cons.prems, of "[]"] by (simp add: split_from_not_Nil)
  next
    case False
    then show ?thesis using Cons.IH [OF Cons.prems, of "x # cur"] by simp
  qed
qed

lemma last_split_join:
  assumes "CHR ''/'' \<notin> set name" and "name \<noteq> []"
  shows "last (py_split (join x name) ''/'') = name"
proof -
  from assms have nohd: "hd name \<noteq> CHR ''/''" by (cases name) auto
  show ?thesis
  proof (cases "x = []")
    case True
    with assms nohd show ?thesis by (simp add: join_def py_split_def split_from_slash_free)
  next
    case False
    show ?thesis
    proof (cases "last x = CHR ''/''")
      case True
      with False have "x = butlast x @ [CHR ''/'']" by (metis append_butlast_last_id)
      then have "join x name = butlast x @ CHR ''/'' # name"
        using True False assms nohd by (simp add: join_def)
      then show ?thesis using assms(1) by (simp add: py_split_def last_split_from_slash)
    next
      case l: False
      with False assms nohd have "join x name = x @ CHR ''/'' # name" by (simp add: join_def)
      then show ?thesis using assms(1) by (simp add: py_split_def last_split_from_slash)
    qed
  qed
qed

lemma scene_id_of_hard_coded:
  "scene_id_of (join x ''scene0479_00_vh_clean_2.pth'') = ''scene0479_00''"
proof -
  have "last (py_split (join x ''scene0479_00_vh_clean_2.pth'') ''/'') = ''scene0479_00_vh_clean_2.pth''"
    by (rule last_split_join) simp_all
  moreover have "hd (py_split ''scene0479_00_vh_clean_2.pth'' ''_vh'') = ''scene0479_00''"
    by code_simp
  ultimately show ?thesis by (simp add: scene_id_of_def)
qed

text \<open>
  C10: the list of data paths main iterates over is the one path
  \<^verbatim>\<open>scannet_3d/<split>/scene0479_00_vh_clean_2.pth\<close> under the data directory, whatever files
  exist. So \<^verbatim>\<open>process_one_scene\<close> is called for no scene or for this one only, depending on
  \<^verbatim>\<open>process_id_range\<close>, and the scene identifier is always \<^verbatim>\<open>scene0479_00\<close>.
\<close>

theorem main_single_scene:
  "data_paths fs c =
     [join (join (join (data_dir c) ''scannet_3d'') (split c)) ''scene0479_00_vh_clean_2.pth''] \<and>
   (main_calls fs c = [] \<or> main_calls fs c = data_paths fs c) \<and>
   length (main_calls fs c) \<le> 1 \<and>
   (\<forall>p\<in>set (main_calls fs c). scene_id_of p = ''scene0479_00'')"
proof -
  have dp: "data_paths fs c =
     [join (join (join (data_dir c) ''scannet_3d'') (split c)) ''scene0479_00_vh_clean_2.pth'']"
    by (simp add: data_paths_def)
  have mc: "main_calls fs c = [] \<or> main_calls fs c = data_paths fs c"
    by (simp add: main_calls_def dp)
  then have "length (main_calls fs c) \<le> 1" using dp by auto
  moreover have "\<forall>p\<in>set (main_calls fs c). scene_id_of p = ''scene0479_00''"
    using mc dp scene_id_of_hard_coded by auto
  ultimately show ?thesis using dp mc by blast
qed

theorem main_single_scene_witness:
  "main_calls {''data/scannet_3d/train/scene0000_00_vh_clean_2.pth''}
     \<lparr>split = ''train'', data_dir = ''data'', output_dir = ''out'', openseg_model = ''m'',
      process_id_range = Some (0, 100)\<rparr> =
     [''data/scannet_3d/train/scene0479_00_vh_clean_2.pth''] \<and>
   scene_id_of ''data/scannet_3d/train/scene0479_00_vh_clean_2.pth'' = ''scene0479_00''"
proof -
  have "main_calls {''data/scannet_3d/train/scene0000_00_vh_clean_2.pth''}
     \<lparr>split = ''train'', data_dir = ''data'', output_dir = ''out'', openseg_model = ''m'',
      process_id_range = Some (0, 100)\<rparr> =
     [''data/scannet_3d/train/scene0479_00_vh_clean_2.pth'']"
    by code_simp
  then show ?thesis
    using main_single_scene [of "{''data/scannet_3d/train/scene0000_00_vh_clean_2.pth''}"
      "\<lparr>split = ''train'', data_dir = ''data'', output_dir = ''out'', openseg_model = ''m'',
      process_id_range = Some (0, 100)\<rparr>"]
    by simp
qed

text \<open>The settings main passes on: features are extracted on the fly.\<close>

lemma main_args_settings:
  "keep_features_in_memory (main_args c) = False \<and> feat_dim (main_args c) = 768 \<and>
   (num_rand_file_per_scene (main_args c) = 5 \<or> num_rand_file_per_scene (main_args c) = 1)"
  by (simp add: main_args_def)

subsection \<open>Skipping the views that see nothing\<close>

lemma skipped_empty_view: "nonneg_mask v \<Longrightarrow> skipped v = empty_view v"
  using sum_list_nonneg_eq_0_iff [of "mask_of v"]
  by (auto simp: skipped_def empty_view_def nonneg_mask_def list_all_iff)

lemma view_loop_extracted:
  assumes "view_loop a n i vs st = Inr st'" and "shape_ok n st"
  shows "extracted st' =
     (if keep_features_in_memory a then extracted st
      else extracted st @ map (\<lambda>j. i + j) (filter (\<lambda>j. \<not> skipped (vs ! j)) [0..<length vs]))"
  using assms
proof (induction vs arbitrary: i st)
  case Nil
  then show ?case by simp
next
  case (Cons v vs)
  then obtain st1 where b: "loop_body a n i v st = Inr st1"
    and l: "view_loop a n (Suc i) vs st1 = Inr st'"
    by (auto split: sum.splits)
  have s1: "shape_ok n st1" by (rule loop_body_point(1) [OF b Cons.prems(2)])
  have e1: "extracted st1 =
      (if skipped v \<or> keep_features_in_memory a then extracted st else extracted st @ [i])"
    by (rule loop_body_point(5) [OF b Cons.prems(2)])
  have up: "[0..<Suc (length vs)] = 0 # map Suc [0..<length vs]"
    by (simp add: upt_conv_Cons map_Suc_upt del: upt_Suc)
  show ?case
    using Cons.IH [OF l s1] e1
    by (simp add: up filter_map comp_def del: upt_Suc)
qed

lemma list_update_zero_id:
  assumes "\<forall>j\<ge>i. j < length row \<longrightarrow> row ! j = (0::int)"
  shows "row[i := 0] = row"
  using assms by (metis list_update_beyond list_update_id not_le_imp_less order_refl)

lemma unopt_sim_step:
  assumes u: "loop_body_unopt a n i v u = Inr u'" and nn: "nonneg_mask v" and sh: "shape_ok n u"
    and eq: "counter s = counter u" "sum_features s = sum_features u" "vis_id s = vis_id u"
    and z: "\<forall>p<n. \<forall>j\<ge>i. j < length (vis_id u ! p) \<longrightarrow> vis_id u ! p ! j = 0"
  shows "\<exists>s'. loop_body a n i v s = Inr s' \<and> counter s' = counter u' \<and>
           sum_features s' = sum_features u' \<and> vis_id s' = vis_id u' \<and> shape_ok n u' \<and>
           (\<forall>p<n. \<forall>j\<ge>Suc i. j < length (vis_id u' ! p) \<longrightarrow> vis_id u' ! p ! j = 0)"
proof -
  from u have len: "length (mapping v) = n" and av: "add_view a i v u = Inr u'"
    by (auto simp: loop_body_unopt_def split: if_splits)
  have sh': "shape_ok n u'" by (rule add_view_point(1) [OF av len sh])
  have vis': "vis_id u' ! p = (vis_id u ! p)[i := mask_of v ! p]" if "p < n" for p
    by (rule add_view_point(4) [OF av len sh that])
  have z': "\<forall>p<n. \<forall>j\<ge>Suc i. j < length (vis_id u' ! p) \<longrightarrow> vis_id u' ! p ! j = 0"
    using vis' z by auto
  show ?thesis
  proof (cases "skipped v")
    case True
    then have "empty_view v" using nn by (simp add: skipped_empty_view)
    then have m0: "mask_of v ! p = 0" if "p < n" for p
      using that len by (simp add: empty_view_def list_all_length)
    have c: "counter u' = counter u"
      using sh sh' add_view_point(2) [OF av len sh] m0
      by (intro nth_equalityI) (simp_all add: shape_ok_def)
    have sm: "sum_features u' = sum_features u"
      using sh sh' add_view_point(3) [OF av len sh] m0
      by (intro nth_equalityI) (simp_all add: shape_ok_def)
    have vs: "vis_id u' = vis_id u"
    proof (rule nth_equalityI)
      show "length (vis_id u') = length (vis_id u)" using sh sh' by (simp add: shape_ok_def)
    next
      fix p assume "p < length (vis_id u')"
      then have p: "p < n" using sh' by (simp add: shape_ok_def)
      have "vis_id u' ! p = (vis_id u ! p)[i := 0]" using vis' [OF p] m0 [OF p] by simp
      also have "\<dots> = vis_id u ! p" using z p by (intro list_update_zero_id) simp
      finally show "vis_id u' ! p = vis_id u ! p" .
    qed
    have "loop_body a n i v s = Inr s" using True len by (simp add: loop_body_def skipped_def)
    then show ?thesis using c sm vs eq sh' z' by simp
  next
    case False
    have "\<exists>s'. add_view a i v s = Inr s' \<and> counter s' = counter u' \<and>
           sum_features s' = sum_features u' \<and> vis_id s' = vis_id u'"
      using av eq by (auto simp: add_view_def Let_def split: sum.splits if_splits)
    moreover have "loop_body a n i v s = add_view a i v s"
      using False len by (simp add: loop_body_def skipped_def)
    ultimately show ?thesis using sh' z' by simp
  qed
qed

lemma unopt_sim_loop:
  assumes "view_loop_unopt a n i vs u = Inr u'" and "list_all nonneg_mask vs" and "shape_ok n u"
    and "counter s = counter u" "sum_features s = sum_features u" "vis_id s = vis_id u"
    and "\<forall>p<n. \<forall>j\<ge>i. j < length (vis_id u ! p) \<longrightarrow> vis_id u ! p ! j = 0"
  shows "\<exists>s'. view_loop a n i vs s = Inr s' \<and> counter s' = counter u' \<and>
           sum_features s' = sum_features u' \<and> vis_id s' = vis_id u'"
  using assms
proof (induction vs arbitrary: i u s)
  case Nil
  then show ?case by simp
next
  case (Cons v vs)
  from Cons.prems(1) obtain u1 where b: "loop_body_unopt a n i v u = Inr u1"
    and l: "view_loop_unopt a n (Suc i) vs u1 = Inr u'"
    by (auto split: sum.splits)
  from Cons.prems(2) have nv: "nonneg_mask v" and nvs: "list_all nonneg_mask vs" by simp_all
  from unopt_sim_step [OF b nv Cons.prems(3-7)]
  obtain s1 where s1: "loop_body a n i v s = Inr s1" "counter s1 = counter u1"
      "sum_features s1 = sum_features u1" "vis_id s1 = vis_id u1" "shape_ok n u1"
      "\<forall>p<n. \<forall>j\<ge>Suc i. j < length (vis_id u1 ! p) \<longrightarrow> vis_id u1 ! p ! j = 0"
    by blast
  from Cons.IH [OF l nvs s1(5) s1(2,3,4) s1(6)] s1(1) show ?case by simp
qed

lemma finalize_cong:
  assumes "counter s = counter u" "sum_features s = sum_features u" "vis_id s = vis_id u"
  shows "feat_bank (finalize s) = feat_bank (finalize u)"
    and "point_ids (finalize s) = point_ids (finalize u)"
  using assms by (simp_all add: finalize_def Let_def)

lemma fuse_extracted:
  fixes vs :: "'a::{zero,one,plus,times,inverse} view list"
  assumes "list_all nonneg_mask vs" and "fuse a n vs = Inr r"
  shows "extracted (final r) =
          (if keep_features_in_memory a
           then (if has_openseg_model a then [0..<length vs] else [])
           else filter (\<lambda>i. \<not> empty_view (vs ! i)) [0..<length vs])"
proof -
  let ?st0 = "init_acc a n (length vs) :: 'a acc"
  from assms(2) obtain st where loop: "view_loop a n 0 vs ?st0 = Inr st" and r: "r = finalize st"
    by (auto simp: fuse_def split: sum.splits)
  have ex: "extracted st =
     (if keep_features_in_memory a then extracted ?st0
      else extracted ?st0 @ map (\<lambda>j. 0 + j) (filter (\<lambda>j. \<not> skipped (vs ! j)) [0..<length vs]))"
    by (rule view_loop_extracted [OF loop shape_ok_init])
  have f: "filter (\<lambda>j. \<not> skipped (vs ! j)) [0..<length vs] =
        filter (\<lambda>i. \<not> empty_view (vs ! i)) [0..<length vs]"
    using assms(1) by (intro filter_cong) (auto simp: list_all_length skipped_empty_view)
  have id0: "map ((+) (0::nat)) xs = xs" for xs by (rule map_idI) simp
  show ?thesis using ex f by (simp add: r finalize_fields init_acc_def id0)
qed

lemma fuse_unopt_sim:
  fixes vs :: "'a::{zero,one,plus,times,inverse} view list"
  assumes "list_all nonneg_mask vs" and "fuse_unopt a n vs = Inr u"
  shows "\<exists>r. fuse a n vs = Inr r \<and> feat_bank r = feat_bank u \<and> point_ids r = point_ids u"
proof -
  let ?st0 = "init_acc a n (length vs) :: 'a acc"
  from assms(2) obtain st where loop: "view_loop_unopt a n 0 vs ?st0 = Inr st" and u: "u = finalize st"
    by (auto simp: fuse_unopt_def split: sum.splits)
  have z: "\<forall>p<n. \<forall>j\<ge>0. j < length (vis_id ?st0 ! p) \<longrightarrow> vis_id ?st0 ! p ! j = 0"
    by (simp add: init_acc_def)
  from unopt_sim_loop [OF loop assms(1) shape_ok_init refl refl refl z]
  obtain s' where s': "view_loop a n 0 vs ?st0 = Inr s'" "counter s' = counter st"
      "sum_features s' = sum_features st" "vis_id s' = vis_id st"
    by blast
  then have "fuse a n vs = Inr (finalize s')" by (simp add: fuse_def)
  then show ?thesis using finalize_cong [OF s'(2,3,4)] u by simp
qed

lemma view_loop_unopt_ok:
  "(\<exists>st'. view_loop_unopt a n i vs st = Inr st') \<longleftrightarrow>
     list_all (\<lambda>v. length (mapping v) = n \<and>
                 \<not> (keep_features_in_memory a \<and> \<not> has_openseg_model a) \<and> gather_ok a v) vs"
proof (induction vs arbitrary: i st)
  case Nil
  show ?case by simp
next
  case (Cons v vs)
  have b: "(\<exists>st'. loop_body_unopt a n i v st = Inr st') \<longleftrightarrow>
      (length (mapping v) = n \<and>
                 \<not> (keep_features_in_memory a \<and> \<not> has_openseg_model a) \<and> gather_ok a v)"
    using add_view_ok [of a i v st] by (auto simp: loop_body_unopt_def gather_ok_def)
  show ?case
  proof (cases "loop_body_unopt a n i v st")
    case (Inl e)
    then have "\<not> (\<exists>st'. loop_body_unopt a n i v st = Inr st')" by simp
    with b have "\<not> (length (mapping v) = n \<and>
                 \<not> (keep_features_in_memory a \<and> \<not> has_openseg_model a) \<and> gather_ok a v)"
      by blast
    with Inl show ?thesis by auto
  next
    case (Inr st1)
    then have "\<exists>st'. loop_body_unopt a n i v st = Inr st'" by simp
    with b have "length (mapping v) = n \<and>
                 \<not> (keep_features_in_memory a \<and> \<not> has_openseg_model a) \<and> gather_ok a v"
      by blast
    with Inr Cons.IH [of "Suc i" st1] show ?thesis by auto
  qed
qed

lemma fuse_unopt_completes:
  fixes vs :: "'a::{zero,one,plus,times,inverse} view list"
  assumes "\<not> keep_features_in_memory a" and "list_all (gather_ok a) vs" and "fuse a n vs = Inr r"
  shows "\<exists>u. fuse_unopt a n vs = Inr u"
proof -
  let ?st0 = "init_acc a n (length vs) :: 'a acc"
  from assms(3) obtain st where loop: "view_loop a n 0 vs ?st0 = Inr st"
    by (auto simp: fuse_def split: sum.splits)
  then have "list_all (view_ok a n) vs" using view_loop_ok [of a n 0 vs ?st0] by auto
  then have "list_all (\<lambda>v. length (mapping v) = n \<and>
                 \<not> (keep_features_in_memory a \<and> \<not> has_openseg_model a) \<and> gather_ok a v) vs"
    using assms(1,2) by (auto simp: list_all_iff view_ok_def)
  then obtain st' where "view_loop_unopt a n 0 vs ?st0 = Inr st'"
    using view_loop_unopt_ok [of a n 0 vs ?st0] by auto
  then show ?thesis by (simp add: fuse_unopt_def)
qed

text \<open>
  C6: with the features extracted on the fly (\<^verbatim>\<open>keep_features_in_memory\<close> is false, the
  value main sets) and masks without negative entries, a view whose mask is entirely false
  is skipped and \<^verbatim>\<open>extract_openseg_img_feature\<close> is not called for it: the images it is
  called for are exactly the views with a non-empty mask, in order. The skip does not change
  the output: whenever the loop without the test of line 95 completes, the script completes
  with the same feature bank and the same \<^verbatim>\<open>point_ids\<close>; and when lines 104 to 109 raise
  for no view, the loop without the test completes whenever the script does.
\<close>

theorem empty_view_skip:
  fixes vs :: "'a::{zero,one,plus,times,inverse} view list"
  assumes "\<not> keep_features_in_memory a" and "list_all nonneg_mask vs"
  shows "(\<forall>r. fuse a n vs = Inr r \<longrightarrow>
        extracted (final r) = filter (\<lambda>i. \<not> empty_view (vs ! i)) [0..<length vs] \<and>
        (\<forall>i<length vs. empty_view (vs ! i) \<longrightarrow> i \<notin> set (extracted (final r)))) \<and>
    (\<forall>u. fuse_unopt a n vs = Inr u \<longrightarrow>
        (\<exists>r. fuse a n vs = Inr r \<and> feat_bank r = feat_bank u \<and> point_ids r = point_ids u)) \<and>
    (list_all (gather_ok a) vs \<longrightarrow>
       (\<forall>r. fuse a n vs = Inr r \<longrightarrow>
          (\<exists>u. fuse_unopt a n vs = Inr u \<and> feat_bank u = feat_bank r \<and>
                point_ids u = point_ids r)))"
proof -
  have A: "extracted (final r) = filter (\<lambda>i. \<not> empty_view (vs ! i)) [0..<length vs] \<and>
        (\<forall>i<length vs. empty_view (vs ! i) \<longrightarrow> i \<notin> set (extracted (final r)))"
    if "fuse a n vs = Inr r" for r
    using fuse_extracted [OF assms(2) that] assms(1) by simp
  have B: "\<exists>r. fuse a n vs = Inr r \<and> feat_bank r = feat_bank u \<and> point_ids r = point_ids u"
    if "fuse_unopt a n vs = Inr u" for u
    by (rule fuse_unopt_sim [OF assms(2) that])
  have C: "\<exists>u. fuse_unopt a n vs = Inr u \<and> feat_bank u = feat_bank r \<and> point_ids u = point_ids r"
    if "list_all (gather_ok a) vs" "fuse a n vs = Inr r" for r
  proof -
    from fuse_unopt_completes [OF assms(1) that] obtain u where u: "fuse_unopt a n vs = Inr u"
      by blast
    from B [OF u] that(2) u show ?thesis by auto
  qed
  from A B C show ?thesis by blast
qed

lemma ex_nonneg_aeb: "list_all nonneg_mask [ex_view_a, ex_view_e, ex_view_b]"
  by code_simp

lemma ex_gather_ok_aeb: "list_all (gather_ok ex_args) [ex_view_a, ex_view_e, ex_view_b]"
  by code_simp

lemma ex_on_the_fly: "\<not> keep_features_in_memory ex_args"
  by (simp add: ex_args_def)

lemma ex_fuse_aeb:
  "fuse ex_args 2 [ex_view_a, ex_view_e, ex_view_b] =
     Inr \<lparr>feat_bank = [[2, 3], [7, 8]], point_ids = [0, 1],
          final = \<lparr>counter = [2, 1], sum_features = [[4, 6], [7, 8]],
                   vis_id = [[1, 0, 1], [0, 0, 1]], extracted = [0, 2]\<rparr>\<rparr>"
  by code_simp

lemma ex_fuse_unopt_aeb:
  "fuse_unopt ex_args 2 [ex_view_a, ex_view_e, ex_view_b] =
     Inr \<lparr>feat_bank = [[2, 3], [7, 8]], point_ids = [0, 1],
          final = \<lparr>counter = [2, 1], sum_features = [[4, 6], [7, 8]],
                   vis_id = [[1, 0, 1], [0, 0, 1]], extracted = [0, 1, 2]\<rparr>\<rparr>"
  by code_simp

theorem empty_view_skip_witness:
  "\<not> keep_features_in_memory ex_args \<and>
   list_all nonneg_mask [ex_view_a, ex_view_e, ex_view_b] \<and>
   list_all (gather_ok ex_args) [ex_view_a, ex_view_e, ex_view_b] \<and>
   empty_view ([ex_view_a, ex_view_e, ex_view_b] ! 1) \<and>
   fuse_unopt ex_args 2 [ex_view_a, ex_view_e, ex_view_b] =
     Inr \<lparr>feat_bank = [[2, 3], [7, 8]], point_ids = [0, 1],
          final = \<lparr>counter = [2, 1], sum_features = [[4, 6], [7, 8]],
                   vis_id = [[1, 0, 1], [0, 0, 1]], extracted = [0, 1, 2]\<rparr>\<rparr> \<and>
   fuse ex_args 2 [ex_view_a, ex_view_e, ex_view_b] =
     Inr \<lparr>feat_bank = [[2, 3], [7, 8]], point_ids = [0, 1],
          final = \<lparr>counter = [2, 1], sum_features = [[4, 6], [7, 8]],
                   vis_id = [[1, 0, 1], [0, 0, 1]], extracted = [0, 2]\<rparr>\<rparr> \<and>
   1 \<notin> set [0, 2 :: nat]"
proof -
  let ?R = "\<lparr>feat_bank = [[2, 3], [7, 8 :: rat]], point_ids = [0, 1],
          final = \<lparr>counter = [2, 1], sum_features = [[4, 6], [7, 8]],
                   vis_id = [[1, 0, 1], [0, 0, 1]], extracted = [0, 2]\<rparr>\<rparr>"
  have e: "empty_view ([ex_view_a, ex_view_e, ex_view_b] ! 1)" by code_simp
  have l: "(1::nat) < length [ex_view_a, ex_view_e, ex_view_b]" by simp
  from empty_view_skip [OF ex_on_the_fly ex_nonneg_aeb, of 2] ex_fuse_aeb
  have "\<forall>i<length [ex_view_a, ex_view_e, ex_view_b].
          empty_view ([ex_view_a, ex_view_e, ex_view_b] ! i) \<longrightarrow> i \<notin> set (extracted (final ?R))"
    by blast
  with e l have "1 \<notin> set (extracted (final ?R))" by blast
  then have "1 \<notin> set [0, 2 :: nat]" by simp
  with ex_on_the_fly ex_nonneg_aeb ex_gather_ok_aeb e ex_fuse_unopt_aeb ex_fuse_aeb
  show ?thesis by blast
qed

subsection \<open>The order of the views\<close>

lemma fold_count_perm:
  assumes "mset vs' = mset vs"
  shows "fold (\<lambda>v c. if P v then c + 1 else c) vs' c0 = fold (\<lambda>v c. if P v then c + 1 else c) vs c0"
proof -
  have "fold (\<lambda>v c. if P v then c + 1 else c) vs' = fold (\<lambda>v c. if P v then c + 1 else c) vs"
    by (rule fold_multiset_equiv [OF _ assms]) (auto simp: fun_eq_iff)
  then show ?thesis by (rule fun_cong)
qed

lemma map2_add_commute:
  fixes row :: "'a::ab_semigroup_add list"
  shows "map2 (+) (map2 (+) row x) y = map2 (+) (map2 (+) row y) x"
  by (rule nth_equalityI) (auto simp: add.assoc add.commute add.left_commute)

lemma fold_rows_perm:
  fixes row :: "'a::ab_semigroup_add list"
  assumes "mset vs' = mset vs"
  shows "fold (\<lambda>v row. if P v then map2 (+) row (g v) else row) vs' row =
         fold (\<lambda>v row. if P v then map2 (+) row (g v) else row) vs row"
proof -
  have "fold (\<lambda>v row. if P v then map2 (+) row (g v) else row) vs' =
        fold (\<lambda>v row. if P v then map2 (+) row (g v) else row) vs"
    by (rule fold_multiset_equiv [OF _ assms]) (auto simp: fun_eq_iff map2_add_commute)
  then show ?thesis by (rule fun_cong)
qed

lemma view_ok_perm:
  assumes "mset vs' = mset vs"
  shows "list_all (view_ok a n) vs' = list_all (view_ok a n) vs"
  using mset_eq_setD [OF assms] by (simp add: list_all_iff)

lemma perm_counter_ids:
  fixes st :: "'b::{zero,one,plus,times,inverse} acc"
  assumes p: "mset vs' = mset vs"
    and l: "view_loop a n 0 vs (init_acc a n (length vs)) = Inr st"
  shows "\<exists>st'. view_loop a n 0 vs' (init_acc a n (length vs')) = Inr st' \<and> shape_ok n st' \<and>
           counter st' = counter st \<and> point_ids (finalize st') = point_ids (finalize st)"
proof -
  have ok: "list_all (view_ok a n) vs"
    using view_loop_ok [of a n 0 vs "init_acc a n (length vs) :: 'b acc"] l by auto
  then have "list_all (view_ok a n) vs'" by (simp add: view_ok_perm [OF p])
  then obtain st' where l': "view_loop a n 0 vs' (init_acc a n (length vs')) = Inr (st' :: 'b acc)"
    using view_loop_ok [of a n 0 vs' "init_acc a n (length vs') :: 'b acc"] by auto
  have sh: "shape_ok n st" by (rule view_loop_point(1) [OF l shape_ok_init])
  have sh': "shape_ok n st'" by (rule view_loop_point(1) [OF l' shape_ok_init])
  have "counter st' ! q = counter st ! q" if "q < n" for q
    using view_loop_point(2) [OF l shape_ok_init that] view_loop_point(2) [OF l' shape_ok_init that]
      fold_count_perm [OF p, of "\<lambda>v. counted v q" "0::'b"] that
    by (simp add: init_acc_def)
  then have c: "counter st' = counter st"
    using sh sh' by (intro nth_equalityI) (simp_all add: shape_ok_def)
  have "point_ids (finalize st') = point_ids (finalize st)"
    using view_loop_point_ids [OF l] view_loop_point_ids [OF l'] mset_eq_setD [OF p] by simp
  with l' sh' c show ?thesis by blast
qed

lemma perm_sums:
  fixes st :: "'a::{comm_monoid_add,one,times,inverse} acc"
  assumes p: "mset vs' = mset vs"
    and l: "view_loop a n 0 vs (init_acc a n (length vs)) = Inr st"
    and l': "view_loop a n 0 vs' (init_acc a n (length vs')) = Inr st'"
  shows "sum_features st' = sum_features st"
proof -
  have ok: "list_all (view_ok a n) vs"
    using view_loop_ok [of a n 0 vs "init_acc a n (length vs) :: 'a acc"] l by auto
  then have ok': "list_all (view_ok a n) vs'" by (simp add: view_ok_perm [OF p])
  have sh: "shape_ok n st" by (rule view_loop_point(1) [OF l shape_ok_init])
  have sh': "shape_ok n st'" by (rule view_loop_point(1) [OF l' shape_ok_init])
  have "sum_features st' ! q = sum_features st ! q" if "q < n" for q
  proof -
    let ?z = "replicate (feat_dim a) (0::'a)"
    have "sum_features st ! q =
        fold (\<lambda>v row. if counted v q then map2 (+) row (addend (feat_dim a) v q) else row) vs ?z"
      using view_loop_point(3) [OF l shape_ok_init that] fold_add_row_addend [OF ok, of ?z q] that
      by (simp add: init_acc_def)
    moreover have "sum_features st' ! q =
        fold (\<lambda>v row. if counted v q then map2 (+) row (addend (feat_dim a) v q) else row) vs' ?z"
      using view_loop_point(3) [OF l' shape_ok_init that] fold_add_row_addend [OF ok', of ?z q] that
      by (simp add: init_acc_def)
    ultimately show ?thesis
      using fold_rows_perm [OF p, of "\<lambda>v. counted v q" "\<lambda>v. addend (feat_dim a) v q" ?z] by simp
  qed
  then show ?thesis using sh sh' by (intro nth_equalityI) (simp_all add: shape_ok_def)
qed

text \<open>
  C2, as the script has it. When the views of a scene are processed in another order, the
  run completes if and only if it completed before, with the same \<^verbatim>\<open>point_ids\<close> and the
  same counters, whatever the arithmetic of the entries. The feature bank is the same
  whenever addition of entries is associative and commutative, as it is for exact numbers.
\<close>

theorem order_independence:
  fixes vs :: "'a::{comm_monoid_add,one,times,inverse} view list"
    and ws :: "'b::{zero,one,plus,times,inverse} view list"
  assumes "mset vs' = mset vs" and "mset ws' = mset ws"
  shows "(\<forall>r. fuse a n vs = Inr r \<longrightarrow>
        (\<exists>r'. fuse a n vs' = Inr r' \<and> feat_bank r' = feat_bank r \<and> point_ids r' = point_ids r)) \<and>
    (\<forall>q. fuse b m ws = Inr q \<longrightarrow>
        (\<exists>q'. fuse b m ws' = Inr q' \<and> point_ids q' = point_ids q \<and>
              counter (final q') = counter (final q)))"
proof -
  have A: "\<exists>r'. fuse a n vs' = Inr r' \<and> feat_bank r' = feat_bank r \<and> point_ids r' = point_ids r"
    if "fuse a n vs = Inr r" for r
  proof -
    from that obtain st where l: "view_loop a n 0 vs (init_acc a n (length vs)) = Inr st"
      and r: "r = finalize st"
      by (auto simp: fuse_def split: sum.splits)
    from perm_counter_ids [OF assms(1) l] obtain st'
      where l': "view_loop a n 0 vs' (init_acc a n (length vs')) = Inr st'"
        and c: "counter st' = counter st"
        and i: "point_ids (finalize st') = point_ids (finalize st)"
      by blast
    have s: "sum_features st' = sum_features st" by (rule perm_sums [OF assms(1) l l'])
    have "feat_bank (finalize st') = feat_bank (finalize st)"
      using c s by (simp add: finalize_def Let_def)
    moreover have "fuse a n vs' = Inr (finalize st')" using l' by (simp add: fuse_def)
    ultimately show ?thesis using i r by simp
  qed
  have B: "\<exists>q'. fuse b m ws' = Inr q' \<and> point_ids q' = point_ids q \<and>
              counter (final q') = counter (final q)"
    if "fuse b m ws = Inr q" for q
  proof -
    from that obtain st where l: "view_loop b m 0 ws (init_acc b m (length ws)) = Inr st"
      and q: "q = finalize st"
      by (auto simp: fuse_def split: sum.splits)
    from perm_counter_ids [OF assms(2) l] obtain st'
      where l': "view_loop b m 0 ws' (init_acc b m (length ws')) = Inr st'"
        and c: "counter st' = counter st"
        and i: "point_ids (finalize st') = point_ids (finalize st)"
      by blast
    have "fuse b m ws' = Inr (finalize st')" using l' by (simp add: fuse_def)
    then show ?thesis using i c q by (simp add: finalize_fields)
  qed
  from A B show ?thesis by blast
qed


lemma ex_mset_ba: "mset [ex_view_b, ex_view_a] = mset [ex_view_a, ex_view_b]"
  by (simp add: add_mset_commute)

lemma ex_mset_f32:
  "mset [ex_f32_one, ex_f32_one, ex_f32_big] = mset [ex_f32_big, ex_f32_one, ex_f32_one]"
  by (simp add: add_mset_commute)

lemma ex_fuse_ba:
  "fuse ex_args 2 [ex_view_b, ex_view_a] =
     Inr \<lparr>feat_bank = [[2, 3], [7, 8]], point_ids = [0, 1],
          final = \<lparr>counter = [2, 1], sum_features = [[4, 6], [7, 8]],
                   vis_id = [[1, 1], [1, 0]], extracted = [0, 1]\<rparr>\<rparr>"
  by code_simp

lemma ex_fuse_f32_big_first:
  "fuse ex_args 1 [ex_f32_big, ex_f32_one, ex_f32_one] =
     Inr \<lparr>feat_bank = [[F32 (11184811 / 2), F32 (11184811 / 2)]], point_ids = [0],
          final = \<lparr>counter = [F32 3], sum_features = [[F32 16777216, F32 16777216]],
                   vis_id = [[1, 1, 1]], extracted = [0, 1, 2]\<rparr>\<rparr>"
  by code_simp

lemma ex_fuse_f32_big_last:
  "fuse ex_args 1 [ex_f32_one, ex_f32_one, ex_f32_big] =
     Inr \<lparr>feat_bank = [[F32 5592406, F32 5592406]], point_ids = [0],
          final = \<lparr>counter = [F32 3], sum_features = [[F32 16777218, F32 16777218]],
                   vis_id = [[1, 1, 1]], extracted = [0, 1, 2]\<rparr>\<rparr>"
  by code_simp

theorem order_independence_witness:
  "mset [ex_view_b, ex_view_a] = mset [ex_view_a, ex_view_b] \<and>
   mset [ex_f32_one, ex_f32_one, ex_f32_big] = mset [ex_f32_big, ex_f32_one, ex_f32_one] \<and>
   fuse ex_args 2 [ex_view_a, ex_view_b] =
     Inr \<lparr>feat_bank = [[2, 3], [7, 8]], point_ids = [0, 1],
          final = \<lparr>counter = [2, 1], sum_features = [[4, 6], [7, 8]],
                   vis_id = [[1, 1], [0, 1]], extracted = [0, 1]\<rparr>\<rparr> \<and>
   fuse ex_args 2 [ex_view_b, ex_view_a] =
     Inr \<lparr>feat_bank = [[2, 3], [7, 8]], point_ids = [0, 1],
          final = \<lparr>counter = [2, 1], sum_features = [[4, 6], [7, 8]],
                   vis_id = [[1, 1], [1, 0]], extracted = [0, 1]\<rparr>\<rparr> \<and>
   (\<exists>r'. fuse ex_args 2 [ex_view_b, ex_view_a] = Inr r' \<and>
         feat_bank r' = [[2, 3], [7, 8]] \<and> point_ids r' = [0, 1]) \<and>
   (\<exists>q'. fuse ex_args 1 [ex_f32_one, ex_f32_one, ex_f32_big] = Inr q' \<and>
         point_ids q' = [0] \<and> counter (final q') = [F32 3])"
proof -
  from order_independence [OF ex_mset_ba ex_mset_f32, of ex_args 2 ex_args 1]
    ex_fuse_ab ex_fuse_f32_big_first
  have "(\<exists>r'. fuse ex_args 2 [ex_view_b, ex_view_a] = Inr r' \<and>
         feat_bank r' = [[2, 3], [7, 8]] \<and> point_ids r' = [0, 1]) \<and>
   (\<exists>q'. fuse ex_args 1 [ex_f32_one, ex_f32_one, ex_f32_big] = Inr q' \<and>
         point_ids q' = [0] \<and> counter (final q') = [F32 3])"
    by simp
  with ex_mset_ba ex_mset_f32 ex_fuse_ab ex_fuse_ba show ?thesis by blast
qed

text \<open>
  Single-precision addition is not associative. One point is seen in three views with the
  features \<open>2\<^sup>2\<^sup>4\<close>, 1 and 1. Adding the large value first, each 1 is lost to rounding and
  the sum stays \<open>2\<^sup>2\<^sup>4\<close>; adding it last, the sum is \<open>2\<^sup>2\<^sup>4 + 2\<close>. The feature banks of
  the two orders differ.
\<close>

theorem order_dependence_f32_counterexample:
  "mset [ex_f32_one, ex_f32_one, ex_f32_big] = mset [ex_f32_big, ex_f32_one, ex_f32_one] \<and>
   fuse ex_args 1 [ex_f32_big, ex_f32_one, ex_f32_one] =
     Inr \<lparr>feat_bank = [[F32 (11184811 / 2), F32 (11184811 / 2)]], point_ids = [0],
          final = \<lparr>counter = [F32 3], sum_features = [[F32 16777216, F32 16777216]],
                   vis_id = [[1, 1, 1]], extracted = [0, 1, 2]\<rparr>\<rparr> \<and>
   fuse ex_args 1 [ex_f32_one, ex_f32_one, ex_f32_big] =
     Inr \<lparr>feat_bank = [[F32 5592406, F32 5592406]], point_ids = [0],
          final = \<lparr>counter = [F32 3], sum_features = [[F32 16777218, F32 16777218]],
                   vis_id = [[1, 1, 1]], extracted = [0, 1, 2]\<rparr>\<rparr> \<and>
   [[F32 (11184811 / 2), F32 (11184811 / 2)]] \<noteq> [[F32 5592406, F32 5592406]]"
proof -
  have "[[F32 (11184811 / 2), F32 (11184811 / 2)]] \<noteq> [[F32 5592406, F32 5592406]]"
    by simp
  with ex_mset_f32 ex_fuse_f32_big_first ex_fuse_f32_big_last show ?thesis by blast
qed

end
